theory Spec2Isabelle
  imports Main "HOL-Library.Finite_Map" "HOL-Library.Sublist"
begin

section \<open>Errors and outcomes\<close>

text \<open>
  A Go \<^verbatim>\<open>error\<close> value is a message, possibly wrapping another error
  (\<^verbatim>\<open>fmt.Errorf("...: %w", err)\<close>). A call of the engine ends in one of four ways:
  it returns \<^verbatim>\<open>nil\<close>, it returns an error, the process is terminated by
  \<^verbatim>\<open>os.Exit(1)\<close> deep inside \<^verbatim>\<open>Target.Run\<close>, or it panics (a nil
  pointer is dereferenced).
\<close>

datatype error = Err string | Wrap string error

datatype outcome = Ok | Failed error | Exited int | Panic

section \<open>Plugin contracts and targets\<close>

text \<open>
  \<^verbatim>\<open>checks.Config\<close>, \<^verbatim>\<open>actions.Config\<close> and \<^verbatim>\<open>target.Config\<close>: a
  \<^verbatim>\<open>*bool\<close> is a \<open>bool option\<close>, \<open>None\<close> being the nil pointer.
\<close>

record check_config =
  Invert :: bool
  chk_CancelOnFailure :: "bool option"
  chk_ExitOnFailure :: "bool option"

record action_config =
  act_CancelOnFailure :: "bool option"
  act_ExitOnFailure :: "bool option"

record target_config =
  CancelOnCheckFailure :: "bool option"
  CancelOnActionFailure :: "bool option"
  ExitOnCheckFailure :: "bool option"
  ExitOnActionFailure :: "bool option"

text \<open>
  The interfaces \<^verbatim>\<open>checks.Check\<close> and \<^verbatim>\<open>actions.Action\<close>. A plugin is opaque to
  the engine; everything it reads or changes (its own \<^verbatim>\<open>Status\<close> field, files, the
  clock, the cancellation state of the context it is handed) is the world \<open>'w\<close>.
  \<^verbatim>\<open>Execute\<close> returns its error (\<open>None\<close> is nil) and the new world,
  \<^verbatim>\<open>Check()\<close> reads the world.
\<close>

record 'w check =
  chk_Execute :: "'w \<Rightarrow> error option \<times> 'w"
  chk_Check :: "'w \<Rightarrow> bool"
  chk_GetConfig :: check_config

record 'w action =
  act_Execute :: "'w \<Rightarrow> error option \<times> 'w"
  act_GetConfig :: action_config

text \<open>The struct \<^verbatim>\<open>target.Target\<close> (its mutex is left out: the engine is sequential).\<close>

record 'w target =
  TargetId :: string
  Checks :: "'w check list"
  Actions :: "'w action list"
  Cleared :: bool
  Config :: target_config
  Dependencies :: "string list"

text \<open>
  The log is ghost state. \<open>Enter\<close> stands where \<^verbatim>\<open>RunTarget\<close> logs "running target",
  \<open>Call p d\<close> where the dependency loop of \<open>p\<close> calls \<^verbatim>\<open>RunTarget\<close> for \<open>d\<close>,
  \<open>Body\<close> where \<^verbatim>\<open>Target.Run\<close> has passed its two guards and starts on the checks,
  and \<open>CheckExec\<close>/\<open>ActionExec\<close> record one \<^verbatim>\<open>Execute\<close> call each (target id,
  position in the list, the error returned).
\<close>

datatype event =
    Enter string
  | Call string string
  | Body string
  | CheckExec string nat "error option"
  | ActionExec string nat "error option"

section \<open>Target.Run\<close>

text \<open>The four policy expressions of \<^verbatim>\<open>Target.Run\<close>, as written there.\<close>

definition check_shouldExit :: "'w target \<Rightarrow> check_config \<Rightarrow> bool" where
  "check_shouldExit t chkcfg =
     ((chk_ExitOnFailure chkcfg \<noteq> None \<and> the (chk_ExitOnFailure chkcfg)) \<or>
      (chk_ExitOnFailure chkcfg = None \<and> ExitOnCheckFailure (Config t) \<noteq> None \<and>
         the (ExitOnCheckFailure (Config t))))"

definition check_shouldCancel :: "'w target \<Rightarrow> check_config \<Rightarrow> bool" where
  "check_shouldCancel t chkcfg =
     ((chk_CancelOnFailure chkcfg \<noteq> None \<and> the (chk_CancelOnFailure chkcfg)) \<or>
      (chk_CancelOnFailure chkcfg = None \<and> CancelOnCheckFailure (Config t) \<noteq> None \<and>
         the (CancelOnCheckFailure (Config t))))"

definition action_shouldExit :: "'w target \<Rightarrow> action_config \<Rightarrow> bool" where
  "action_shouldExit t actioncfg =
     ((act_ExitOnFailure actioncfg \<noteq> None \<and> the (act_ExitOnFailure actioncfg)) \<or>
      (act_ExitOnFailure actioncfg = None \<and> ExitOnActionFailure (Config t) \<noteq> None \<and>
         the (ExitOnActionFailure (Config t))))"

definition action_shouldCancel :: "'w target \<Rightarrow> action_config \<Rightarrow> bool" where
  "action_shouldCancel t actioncfg =
     ((act_CancelOnFailure actioncfg \<noteq> None \<and> the (act_CancelOnFailure actioncfg)) \<or>
      (act_CancelOnFailure actioncfg = None \<and> CancelOnActionFailure (Config t) \<noteq> None \<and>
         the (CancelOnActionFailure (Config t))))"

text \<open>
  The loop over \<^verbatim>\<open>t.Checks\<close>. The first component of the result is \<open>Some r\<close> when the
  loop body returned from \<^verbatim>\<open>Target.Run\<close> with \<open>r\<close>, and \<open>None\<close> when the loop ran to
  its end.
\<close>

fun run_checks ::
  "'w target \<Rightarrow> nat \<Rightarrow> 'w check list \<Rightarrow> 'w \<Rightarrow> event list
     \<Rightarrow> outcome option \<times> 'w target \<times> 'w \<times> event list" where
  "run_checks t i [] w l = (None, t, w, l)"
| "run_checks t i (check # rest) w l =
     (case chk_Execute check w of
        (Some err, w') \<Rightarrow> (Some (Failed err), t, w', l @ [CheckExec (TargetId t) i (Some err)])
      | (None, w') \<Rightarrow>
          if \<not> chk_Check check w' then
            if check_shouldExit t (chk_GetConfig check) then
              (Some (Exited 1), t, w', l @ [CheckExec (TargetId t) i None])
            else if check_shouldCancel t (chk_GetConfig check) then
              (Some (Failed (Err ''check failed, cancelling run'')), t, w',
               l @ [CheckExec (TargetId t) i None])
            else
              (Some Ok, t\<lparr>Cleared := True\<rparr>, w', l @ [CheckExec (TargetId t) i None])
          else run_checks t (Suc i) rest w' (l @ [CheckExec (TargetId t) i None]))"

text \<open>The loop over \<^verbatim>\<open>t.Actions\<close>.\<close>

fun run_actions ::
  "'w target \<Rightarrow> nat \<Rightarrow> 'w action list \<Rightarrow> 'w \<Rightarrow> event list
     \<Rightarrow> outcome option \<times> 'w target \<times> 'w \<times> event list" where
  "run_actions t i [] w l = (None, t, w, l)"
| "run_actions t i (action # rest) w l =
     (case act_Execute action w of
        (Some err, w') \<Rightarrow>
          if action_shouldExit t (act_GetConfig action) then
            (Some (Exited 1), t, w', l @ [ActionExec (TargetId t) i (Some err)])
          else if action_shouldCancel t (act_GetConfig action) then
            (Some (Failed (Err ''action failed, cancelling run'')), t, w',
             l @ [ActionExec (TargetId t) i (Some err)])
          else
            (Some Ok, t\<lparr>Cleared := True\<rparr>, w', l @ [ActionExec (TargetId t) i (Some err)])
      | (None, w') \<Rightarrow> run_actions t (Suc i) rest w' (l @ [ActionExec (TargetId t) i None]))"

text \<open>
  \<^verbatim>\<open>func (t *Target) Run(ctx)\<close>. The context is a function of the world: \<open>ctx w\<close> is
  what \<^verbatim>\<open>ctx.Err()\<close> returns in world \<open>w\<close>.
\<close>

definition Target_Run ::
  "('w \<Rightarrow> error option) \<Rightarrow> 'w target \<Rightarrow> 'w \<Rightarrow> event list
     \<Rightarrow> outcome \<times> 'w target \<times> 'w \<times> event list" where
  "Target_Run ctx t w l =
     (if Cleared t then (Ok, t, w, l)
      else if ctx w \<noteq> None then
        (Failed (Err ''context cancelled, likely by termination signal/interrupt''), t, w, l)
      else
        (case run_checks t 0 (Checks t) w (l @ [Body (TargetId t)]) of
           (Some r, t1, w1, l1) \<Rightarrow> (r, t1, w1, l1)
         | (None, t1, w1, l1) \<Rightarrow>
             (case run_actions t1 0 (Actions t1) w1 l1 of
                (Some r, t2, w2, l2) \<Rightarrow> (r, t2, w2, l2)
              | (None, t2, w2, l2) \<Rightarrow> (Ok, t2\<lparr>Cleared := True\<rparr>, w2, l2))))"

section \<open>Duck.RunTarget\<close>

text \<open>
  What \<^verbatim>\<open>RunTarget\<close> reads and writes: the target table \<^verbatim>\<open>d.Targets\<close>, the lineage
  map (a Go map is a reference, so the callee's insertions are seen by the caller), the
  world and the log.
\<close>

record 'w rstate =
  Targets :: "(string, 'w target) fmap"
  Lineage :: "string set"
  World :: 'w
  Log :: "event list"

text \<open>
  The loop over the dependencies of \<open>p\<close>: \<open>f\<close> is the recursive call. The result
  is \<open>None\<close> when the recursion did not return.
\<close>

fun run_deps ::
  "(string \<Rightarrow> 'w rstate \<Rightarrow> (outcome \<times> 'w rstate) option) \<Rightarrow> string \<Rightarrow> string list
     \<Rightarrow> 'w rstate \<Rightarrow> (outcome \<times> 'w rstate) option" where
  "run_deps f p [] s = Some (Ok, s)"
| "run_deps f p (dependency # rest) s =
     (case f dependency (s\<lparr>Log := Log s @ [Call p dependency]\<rparr>) of
        None \<Rightarrow> None
      | Some (r, s') \<Rightarrow> if r = Ok then run_deps f p rest s' else Some (r, s'))"

text \<open>
  \<^verbatim>\<open>func (d *Duck) RunTarget(ctx, target, lineage)\<close>, with fuel for the depth of the
  recursion: \<open>RunTarget n\<close> is \<open>None\<close> when the recursion would go deeper than \<open>n\<close>.
\<close>

primrec RunTarget ::
  "nat \<Rightarrow> ('w \<Rightarrow> error option) \<Rightarrow> string \<Rightarrow> 'w rstate \<Rightarrow> (outcome \<times> 'w rstate) option" where
  "RunTarget 0 ctx target s = None"
| "RunTarget (Suc n) ctx target s =
     (case ctx (World s) of
        Some err \<Rightarrow> Some (Failed (Wrap ''context cancelled before execution'' err), s)
      | None \<Rightarrow>
          (case fmlookup (Targets s) target of
             None \<Rightarrow> Some (Failed (Err (''target '' @ target @ '' not found'')), s)
           | Some t \<Rightarrow>
               if target \<in> Lineage s then Some (Ok, s)
               else if Cleared t then Some (Ok, s)
               else
                 (case run_deps (RunTarget n ctx) target (Dependencies t)
                         (s\<lparr>Lineage := insert target (Lineage s),
                            Log := Log s @ [Enter target]\<rparr>) of
                    None \<Rightarrow> None
                  | Some (r, s1) \<Rightarrow>
                      if r \<noteq> Ok then Some (r, s1)
                      else
                        (case fmlookup (Targets s1) target of
                           None \<Rightarrow> Some (Panic, s1)
                         | Some t1 \<Rightarrow>
                             (case Target_Run ctx t1 (World s1) (Log s1) of
                                (r', t2, w2, l2) \<Rightarrow>
                                  Some (r', s1\<lparr>Targets := fmupd target t2 (Targets s1),
                                                World := w2, Log := l2\<rparr>))))))"

section \<open>The document resolver\<close>

text \<open>
  \<^verbatim>\<open>url.URL\<close>, with the four fields the resolver reads. \<^verbatim>\<open>String()\<close>, \<^verbatim>\<open>url.Parse\<close>
  and every other call that leaves the program (the file system, HTTP, the object
  store, the YAML parser) is a parameter, collected in the environment below.
\<close>

record url =
  Scheme :: string
  Host :: string
  Path :: string
  RawQuery :: string

text \<open>
  A parsed document (the \<^verbatim>\<open>koanf\<close> tree): its top-level keys as \<^verbatim>\<open>k.MapKeys("")\<close>
  lists them, the strings under \<^verbatim>\<open>_meta.dependencies\<close>, and for each key what
  \<^verbatim>\<open>target.NewTarget\<close> makes of the subtree \<^verbatim>\<open>k.Cut(key)\<close>.
\<close>

record 'w document =
  MapKeys :: "string list"
  meta_dependencies :: "string list"
  NewTarget :: "string \<Rightarrow> error + 'w target"

text \<open>
  A bucket of the object store: \<^verbatim>\<open>List\<close> yields keys until it ends (\<open>None\<close>, the
  \<^verbatim>\<open>io.EOF\<close>) or fails, \<^verbatim>\<open>Exists\<close> answers or fails, and \<^verbatim>\<open>NewReader\<close> followed by
  \<^verbatim>\<open>io.ReadAll\<close> gives the bytes or the error of either.
\<close>

record bucket =
  bucket_List :: "string \<Rightarrow> string list \<times> error option"
  bucket_Exists :: "string \<Rightarrow> error + bool"
  bucket_NewReader :: "string \<Rightarrow> error + (error + string)"

record 'w env =
  url_Parse :: "string \<Rightarrow> error + url"
  url_String :: "url \<Rightarrow> string"
  filepath_Abs :: "string \<Rightarrow> error + string"
  filepath_Join :: "string \<Rightarrow> string \<Rightarrow> string"
  os_Stat :: "string \<Rightarrow> error + bool"
  os_ReadDir :: "string \<Rightarrow> error + (string \<times> bool) list"
  blob_OpenBucket :: "string \<Rightarrow> error + bucket"
  http_Get :: "string \<Rightarrow> error + (error + string)"
  koanf_Load_file :: "string \<Rightarrow> error + 'w document"
  koanf_Load_rawbytes :: "string \<Rightarrow> error + 'w document"

text \<open>\<^verbatim>\<open>duck.Config\<close> (the fields the engine reads) and \<^verbatim>\<open>duck.Duck\<close>.\<close>

record config =
  cfg_Files :: "string list"
  cfg_ListTargets :: bool
  cfg_Target :: string

record 'w duck =
  duck_Config :: config
  duck_Duckfiles :: "(string, url) fmap"
  duck_Targets :: "(string, 'w target) fmap"

text \<open>The functions of package \<^verbatim>\<open>strings\<close> that the resolver calls.\<close>

fun strings_Contains :: "string \<Rightarrow> string \<Rightarrow> bool" where
  "strings_Contains [] substr = (substr = [])"
| "strings_Contains (c # s) substr = (prefix substr (c # s) \<or> strings_Contains s substr)"

definition strings_HasSuffix :: "string \<Rightarrow> string \<Rightarrow> bool" where
  "strings_HasSuffix s suff = suffix suff s"

definition strings_TrimPrefix :: "string \<Rightarrow> string \<Rightarrow> string" where
  "strings_TrimPrefix s pre = (if prefix pre s then drop (length pre) s else s)"

text \<open>A Go loop over a slice whose body may return an error from the function.\<close>

fun for_each :: "('a \<Rightarrow> 's \<Rightarrow> error option \<times> 's) \<Rightarrow> 'a list \<Rightarrow> 's \<Rightarrow> error option \<times> 's" where
  "for_each f [] s = (None, s)"
| "for_each f (x # xs) s =
     (case f x s of (Some err, s') \<Rightarrow> (Some err, s') | (None, s') \<Rightarrow> for_each f xs s')"

definition isDuckfile :: "string \<Rightarrow> bool" where
  "isDuckfile filename =
     (strings_HasSuffix filename ''.Duckfile'' \<or>
      strings_HasSuffix filename ''.duck'' \<or>
      strings_HasSuffix filename ''.duckfile'' \<or>
      strings_HasSuffix filename ''.duck.yaml'' \<or>
      strings_HasSuffix filename ''.duck.yml'' \<or>
      filename = ''Duckfile'')"

text \<open>
  In the resolver the context is read and never changed, so \<^verbatim>\<open>ctx.Err()\<close> is one
  value \<open>cerr\<close> throughout a pass.
\<close>

definition handleFileURL :: "'w env \<Rightarrow> error option \<Rightarrow> url \<Rightarrow> error + url list" where
  "handleFileURL env cerr u =
     (case cerr of
        Some err \<Rightarrow> Inl err
      | None \<Rightarrow>
          (case os_Stat env (Path u) of
             Inl err \<Rightarrow> Inl (Wrap (''failed to stat '' @ Path u) err)
           | Inr isDir \<Rightarrow>
               if isDir then
                 (case os_ReadDir env (Path u) of
                    Inl err \<Rightarrow> Inl (Wrap (''failed to read directory '' @ Path u) err)
                  | Inr files \<Rightarrow>
                      Inr (map (\<lambda>(filename, dir).
                                 \<lparr>Scheme = ''file'', Host = [],
                                  Path = filepath_Join env (Path u) filename, RawQuery = []\<rparr>)
                             (filter (\<lambda>(filename, dir). \<not> dir \<and> isDuckfile filename) files)))
               else Inr [u]))"

definition cloud_bucketURL :: "url \<Rightarrow> string" where
  "cloud_bucketURL u =
     (if RawQuery u \<noteq> [] then Scheme u @ ''://'' @ Host u @ ''?'' @ RawQuery u
      else Scheme u @ ''://'' @ Host u)"

definition handleCloudURL :: "'w env \<Rightarrow> error option \<Rightarrow> url \<Rightarrow> string \<Rightarrow> error + url list" where
  "handleCloudURL env cerr u floc =
     (case cerr of
        Some err \<Rightarrow> Inl err
      | None \<Rightarrow>
          (case blob_OpenBucket env (cloud_bucketURL u) of
             Inl err \<Rightarrow> Inl (Wrap (''failed to open bucket '' @ cloud_bucketURL u) err)
           | Inr b \<Rightarrow>
               if strings_HasSuffix (strings_TrimPrefix (Path u) ''/'') ''/'' \<or>
                  strings_TrimPrefix (Path u) ''/'' = []
               then
                 (case bucket_List b (strings_TrimPrefix (Path u) ''/'') of
                    (objs, Some err) \<Rightarrow>
                      Inl (Wrap (''failed to list objects in '' @ cloud_bucketURL u) err)
                  | (objs, None) \<Rightarrow>
                      Inr (map (\<lambda>filename.
                                 \<lparr>Scheme = Scheme u, Host = Host u, Path = ''/'' @ filename,
                                  RawQuery = RawQuery u\<rparr>)
                             (filter isDuckfile objs)))
               else
                 (case bucket_Exists b (strings_TrimPrefix (Path u) ''/'') of
                    Inl err \<Rightarrow>
                      Inl (Wrap (''failed to check existence of '' @
                                 strings_TrimPrefix (Path u) ''/'' @ '' in '' @ cloud_bucketURL u) err)
                  | Inr exists \<Rightarrow>
                      if exists then
                        (case url_Parse env floc of
                           Inl err \<Rightarrow> Inl (Wrap (''failed to parse URL '' @ floc) err)
                         | Inr parsedURL \<Rightarrow> Inr [parsedURL])
                      else Inr [])))"

definition handleHTTPURL :: "error option \<Rightarrow> url \<Rightarrow> error + url list" where
  "handleHTTPURL cerr u = (case cerr of Some err \<Rightarrow> Inl err | None \<Rightarrow> Inr [u])"

definition GetDuckfiles :: "'w env \<Rightarrow> error option \<Rightarrow> string \<Rightarrow> error + url list" where
  "GetDuckfiles env cerr floc =
     (case cerr of
        Some err \<Rightarrow> Inl err
      | None \<Rightarrow>
          (case (if strings_Contains floc ''://'' then
                   (case url_Parse env floc of
                      Inl err \<Rightarrow> Inl (Wrap (''failed to parse URL '' @ floc) err)
                    | Inr u \<Rightarrow> Inr u)
                 else
                   (case filepath_Abs env floc of
                      Inl err \<Rightarrow> Inl (Wrap (''failed to get absolute path for '' @ floc) err)
                    | Inr absPath \<Rightarrow>
                        Inr \<lparr>Scheme = ''file'', Host = [], Path = absPath, RawQuery = []\<rparr>)) of
             Inl err \<Rightarrow> Inl err
           | Inr u \<Rightarrow>
               if Scheme u = ''file'' then handleFileURL env cerr u
               else if Scheme u = ''s3'' \<or> Scheme u = ''gs'' \<or> Scheme u = ''azblob'' then
                 handleCloudURL env cerr u floc
               else if Scheme u = ''http'' \<or> Scheme u = ''https'' then handleHTTPURL cerr u
               else Inl (Err (''unsupported URL scheme: '' @ Scheme u))))"

definition loadFileURL :: "'w env \<Rightarrow> error option \<Rightarrow> url \<Rightarrow> error + 'w document" where
  "loadFileURL env cerr duckfile =
     (case cerr of
        Some err \<Rightarrow> Inl (Wrap ''context cancelled before execution'' err)
      | None \<Rightarrow>
          (case koanf_Load_file env (Path duckfile) of
             Inl err \<Rightarrow> Inl (Wrap (''failed to load file from '' @ Path duckfile) err)
           | Inr k \<Rightarrow> Inr k))"

definition loadHTTPURL :: "'w env \<Rightarrow> error option \<Rightarrow> url \<Rightarrow> error + 'w document" where
  "loadHTTPURL env cerr duckfile =
     (case cerr of
        Some err \<Rightarrow> Inl (Wrap ''context cancelled before execution'' err)
      | None \<Rightarrow>
          (case http_Get env (url_String env duckfile) of
             Inl err \<Rightarrow> Inl (Wrap (''failed to fetch from '' @ url_String env duckfile) err)
           | Inr (Inl err) \<Rightarrow>
               Inl (Wrap (''failed to read response body from '' @ url_String env duckfile) err)
           | Inr (Inr data) \<Rightarrow>
               (case koanf_Load_rawbytes env data of
                  Inl err \<Rightarrow>
                    Inl (Wrap (''failed to parse yaml from '' @ url_String env duckfile) err)
                | Inr k \<Rightarrow> Inr k)))"

definition load_bucketURL :: "url \<Rightarrow> string" where
  "load_bucketURL duckfile =
     (if RawQuery duckfile \<noteq> [] then
        Scheme duckfile @ ''://'' @ Host duckfile @ Path duckfile @ ''?'' @ RawQuery duckfile
      else Scheme duckfile @ ''://'' @ Host duckfile @ Path duckfile)"

definition loadCloudURL :: "'w env \<Rightarrow> error option \<Rightarrow> url \<Rightarrow> error + 'w document" where
  "loadCloudURL env cerr duckfile =
     (case cerr of
        Some err \<Rightarrow> Inl (Wrap ''context cancelled before execution'' err)
      | None \<Rightarrow>
          (case blob_OpenBucket env (load_bucketURL duckfile) of
             Inl err \<Rightarrow> Inl (Wrap (''failed to open bucket '' @ load_bucketURL duckfile) err)
           | Inr b \<Rightarrow>
               (case bucket_NewReader b (strings_TrimPrefix (Path duckfile) ''/'') of
                  Inl err \<Rightarrow>
                    Inl (Wrap (''failed to create reader for '' @
                               strings_TrimPrefix (Path duckfile) ''/'') err)
                | Inr (Inl err) \<Rightarrow>
                    Inl (Wrap (''failed to read contents from '' @
                               strings_TrimPrefix (Path duckfile) ''/'') err)
                | Inr (Inr data) \<Rightarrow>
                    (case koanf_Load_rawbytes env data of
                       Inl err \<Rightarrow>
                         Inl (Wrap (''failed to parse yaml from '' @ url_String env duckfile) err)
                     | Inr k \<Rightarrow> Inr k))))"

text \<open>The \<^verbatim>\<open>switch duckfile.Scheme\<close> of \<^verbatim>\<open>LoadDuckfile\<close>.\<close>

definition load_by_scheme :: "'w env \<Rightarrow> error option \<Rightarrow> url \<Rightarrow> error + 'w document" where
  "load_by_scheme env cerr duckfile =
     (if Scheme duckfile = ''file'' then loadFileURL env cerr duckfile
      else if Scheme duckfile = ''http'' \<or> Scheme duckfile = ''https'' then
        loadHTTPURL env cerr duckfile
      else if Scheme duckfile = ''s3'' \<or> Scheme duckfile = ''gs'' \<or> Scheme duckfile = ''azblob'' then
        loadCloudURL env cerr duckfile
      else Inl (Err (''unsupported scheme: '' @ Scheme duckfile)))"

text \<open>
  \<^verbatim>\<open>appendTarget\<close>. \<^verbatim>\<open>konfig.Set("id", name)\<close> before \<^verbatim>\<open>NewTarget\<close> makes the key the
  target's id.
\<close>

definition appendTarget ::
  "error option \<Rightarrow> 'w duck \<Rightarrow> string \<Rightarrow> 'w document \<Rightarrow> error option \<times> 'w duck" where
  "appendTarget cerr d name k =
     (case cerr of
        Some err \<Rightarrow> (Some (Wrap ''context cancelled before execution'' err), d)
      | None \<Rightarrow>
          if fmlookup (duck_Targets d) name \<noteq> None then
            (Some (Err (''target '' @ name @ '' already exists'')), d)
          else
            (case NewTarget k name of
               Inl err \<Rightarrow> (Some (Wrap (''failed to create target '' @ name) err), d)
             | Inr t \<Rightarrow>
                 (None, d\<lparr>duck_Targets := fmupd name (t\<lparr>TargetId := name\<rparr>) (duck_Targets d)\<rparr>)))"

text \<open>
  \<^verbatim>\<open>LoadDuckfile\<close>. It calls itself only from under \<^verbatim>\<open>if recurse\<close>, and then with
  \<^verbatim>\<open>recurse = false\<close>.
\<close>

function LoadDuckfile ::
  "'w env \<Rightarrow> error option \<Rightarrow> 'w duck \<Rightarrow> url \<Rightarrow> bool \<Rightarrow> error option \<times> 'w duck" where
  "LoadDuckfile env cerr d duckfile recurse =
     (case cerr of
        Some err \<Rightarrow> (Some (Wrap ''context cancelled before execution'' err), d)
      | None \<Rightarrow>
          if fmlookup (duck_Duckfiles d) (url_String env duckfile) \<noteq> None then (None, d)
          else
            (case load_by_scheme env cerr duckfile of
               Inl err \<Rightarrow>
                 (Some err,
                  d\<lparr>duck_Duckfiles :=
                      fmupd (url_String env duckfile) duckfile (duck_Duckfiles d)\<rparr>)
             | Inr k \<Rightarrow>
                 for_each
                   (\<lambda>key dk.
                      if key = ''_meta'' then
                        (if recurse then
                           (if length (meta_dependencies k) > 0 then
                              for_each
                                (\<lambda>dep dd.
                                   case GetDuckfiles env cerr dep of
                                     Inl err \<Rightarrow>
                                       (Some (Wrap (''failed to extract duckfile urls for dependency ''
                                                    @ dep) err), dd)
                                   | Inr depURLs \<Rightarrow>
                                       for_each
                                         (\<lambda>depURL dl.
                                            case LoadDuckfile env cerr dl depURL False of
                                              (Some err, dl') \<Rightarrow>
                                                (Some (Wrap (''failed to load dependency duckfile ''
                                                             @ url_String env depURL) err), dl')
                                            | (None, dl') \<Rightarrow> (None, dl'))
                                         depURLs dd)
                                (meta_dependencies k) dk
                            else (None, dk))
                         else (None, dk))
                      else
                        (case appendTarget cerr dk key k of
                           (Some err, dk') \<Rightarrow>
                             (Some (Wrap (''failed to append target '' @ key) err), dk')
                         | (None, dk') \<Rightarrow> (None, dk')))
                   (MapKeys k)
                   (d\<lparr>duck_Duckfiles :=
                       fmupd (url_String env duckfile) duckfile (duck_Duckfiles d)\<rparr>)))"
  by pat_completeness auto

termination
  by (relation "measure (\<lambda>(env, cerr, d, duckfile, recurse). if recurse then 1 else 0)") auto

text \<open>\<^verbatim>\<open>CompileTargets\<close>; \<open>compile_file\<close> is the body of its loop over \<^verbatim>\<open>d.Config.Files\<close>.\<close>

definition compile_file :: "'w env \<Rightarrow> error option \<Rightarrow> string \<Rightarrow> 'w duck \<Rightarrow> error option \<times> 'w duck" where
  "compile_file env cerr duckfile d =
     (case GetDuckfiles env cerr duckfile of
        Inl err \<Rightarrow> (Some err, d)
      | Inr duckfiles \<Rightarrow>
          for_each (\<lambda>duckfile d2. LoadDuckfile env cerr d2 duckfile True) duckfiles d)"

definition CompileTargets :: "'w env \<Rightarrow> error option \<Rightarrow> 'w duck \<Rightarrow> error option \<times> 'w duck" where
  "CompileTargets env cerr d =
     (case cerr of
        Some err \<Rightarrow> (Some (Wrap ''context cancelled before execution'' err), d)
      | None \<Rightarrow> for_each (compile_file env cerr) (cfg_Files (duck_Config d)) d)"

text \<open>\<^verbatim>\<open>ListTargets\<close> (its printing is left out).\<close>

definition ListTargets :: "'w env \<Rightarrow> error option \<Rightarrow> 'w duck \<Rightarrow> error option \<times> 'w duck" where
  "ListTargets env cerr d =
     (case cerr of
        Some err \<Rightarrow> (Some (Wrap ''context cancelled before execution'' err), d)
      | None \<Rightarrow>
          if fmdom (duck_Targets d) = {||} then CompileTargets env cerr d
          else (None, d))"

text \<open>
  \<^verbatim>\<open>func (d *Duck) Run(ctx)\<close>: the result, the instance, the world and the log. The
  lineage is the fresh \<^verbatim>\<open>make(map[string]struct{})\<close>; it is not part of what is
  returned.
\<close>

definition Duck_Run ::
  "nat \<Rightarrow> 'w env \<Rightarrow> ('w \<Rightarrow> error option) \<Rightarrow> 'w duck \<Rightarrow> 'w
     \<Rightarrow> (outcome \<times> 'w duck \<times> 'w \<times> event list) option" where
  "Duck_Run n env ctx d w =
     (case ctx w of
        Some err \<Rightarrow> Some (Failed (Wrap ''context cancelled before execution'' err), d, w, [])
      | None \<Rightarrow>
          (case CompileTargets env (ctx w) d of
             (Some err, d1) \<Rightarrow> Some (Failed err, d1, w, [])
           | (None, d1) \<Rightarrow>
               if cfg_ListTargets (duck_Config d1) then
                 (case ListTargets env (ctx w) d1 of
                    (Some err, d2) \<Rightarrow> Some (Failed err, d2, w, [])
                  | (None, d2) \<Rightarrow> Some (Ok, d2, w, []))
               else
                 (case RunTarget n ctx (cfg_Target (duck_Config d1))
                         \<lparr>Targets = duck_Targets d1, Lineage = {}, World = w, Log = []\<rparr> of
                    None \<Rightarrow> None
                  | Some (r, s') \<Rightarrow>
                      Some (r, d1\<lparr>duck_Targets := Targets s'\<rparr>, World s', Log s'))))"

section \<open>Specification-level definitions\<close>

text \<open>
  Policy resolution in the words of the specification: the item-level override when it
  is set, otherwise the target-level default when it is set, otherwise false.
\<close>

definition spec_effective :: "bool option \<Rightarrow> bool option \<Rightarrow> bool" where
  "spec_effective item_override target_default =
     (case item_override of
        Some b \<Rightarrow> b
      | None \<Rightarrow> (case target_default of Some b \<Rightarrow> b | None \<Rightarrow> False))"

text \<open>
  Projections of the log: the targets whose body was started, the targets entered, and
  the dependencies a target called, each in the order of the log.
\<close>

primrec bodies :: "event list \<Rightarrow> string list" where
  "bodies [] = []"
| "bodies (e # es) = (case e of Body x \<Rightarrow> x # bodies es | _ \<Rightarrow> bodies es)"

primrec entered :: "event list \<Rightarrow> string list" where
  "entered [] = []"
| "entered (e # es) = (case e of Enter x \<Rightarrow> x # entered es | _ \<Rightarrow> entered es)"

primrec calls_of :: "string \<Rightarrow> event list \<Rightarrow> string list" where
  "calls_of p [] = []"
| "calls_of p (e # es) =
     (case e of Call q d \<Rightarrow> (if q = p then d # calls_of p es else calls_of p es)
      | _ \<Rightarrow> calls_of p es)"





text \<open>A piece of log that holds only \<^verbatim>\<open>Execute\<close> events.\<close>

definition plugin_only :: "event list \<Rightarrow> bool" where
  "plugin_only L = (bodies L = [] \<and> entered L = [] \<and> (\<forall>p. calls_of p L = []))"

text \<open>
  What any call of \<^verbatim>\<open>RunTarget\<close> does to the state: the log is extended, the lineage
  gains the targets entered, and the table keeps its keys and its targets, up to their
  Cleared flags.
\<close>

definition evolves :: "'w rstate \<Rightarrow> 'w rstate \<Rightarrow> bool" where
  "evolves s s' =
     ((\<exists>L. Log s' = Log s @ L \<and> Lineage s' = Lineage s \<union> set (entered L)) \<and>
      fmdom' (Targets s') = fmdom' (Targets s) \<and>
      (\<forall>k t. fmlookup (Targets s) k = Some t \<longrightarrow>
         (\<exists>t'. fmlookup (Targets s') k = Some t' \<and> (t' = t \<or> t' = t\<lparr>Cleared := True\<rparr>))))"

text \<open>The two state changes of \<^verbatim>\<open>RunTarget\<close> itself, named for the proofs.\<close>

definition enter :: "string \<Rightarrow> 'w rstate \<Rightarrow> 'w rstate" where
  "enter x s = s\<lparr>Lineage := insert x (Lineage s), Log := Log s @ [Enter x]\<rparr>"

definition after_body :: "string \<Rightarrow> 'w target \<Rightarrow> 'w \<Rightarrow> event list \<Rightarrow> 'w rstate \<Rightarrow> 'w rstate" where
  "after_body x t w l s = s\<lparr>Targets := fmupd x t (Targets s), World := w, Log := l\<rparr>"

text \<open>The targets of the table not yet in the lineage: a bound on the depth of the recursion.\<close>

definition unvisited :: "'w rstate \<Rightarrow> nat" where
  "unvisited s = card (fmdom' (Targets s) - Lineage s)"

text \<open>
  The invariant of the traversal of an acyclic graph \<open>g\<close>. \<open>A\<close> is the set of targets
  whose call is active. In \<open>deps_first\<close> every element of the list comes after all its
  direct dependencies.
\<close>

definition deps_first :: "(string \<Rightarrow> string list) \<Rightarrow> string list \<Rightarrow> bool" where
  "deps_first g xs = (\<forall>as y bs. xs = as @ y # bs \<longrightarrow> set (g y) \<subseteq> set as)"





text \<open>The errors that \<^verbatim>\<open>Execute\<close> calls returned, as the log records them.\<close>

primrec check_errors :: "event list \<Rightarrow> error list" where
  "check_errors [] = []"
| "check_errors (ev # es) =
     (case ev of CheckExec x i (Some e) \<Rightarrow> e # check_errors es | _ \<Rightarrow> check_errors es)"

primrec action_errors :: "event list \<Rightarrow> (nat \<times> error) list" where
  "action_errors [] = []"
| "action_errors (ev # es) =
     (case ev of ActionExec x i (Some e) \<Rightarrow> (i, e) # action_errors es | _ \<Rightarrow> action_errors es)"


text \<open>A piece of log in which a check error can only be the last event, and then decides the result.\<close>

definition fatal_last :: "event list \<Rightarrow> outcome \<Rightarrow> bool" where
  "fatal_last L r =
     (\<forall>e \<in> set (check_errors L). r = Failed e \<and> L \<noteq> [] \<and> (\<exists>x i. last L = CheckExec x i (Some e)))"







text \<open>
  The target ids a loaded locator declares: the top-level keys of its document other
  than \<^verbatim>\<open>_meta\<close>.
\<close>

definition declared_by :: "'w env \<Rightarrow> (string, url) fmap \<Rightarrow> string \<Rightarrow> string list" where
  "declared_by env D s =
     (case fmlookup D s of
        None \<Rightarrow> []
      | Some u \<Rightarrow>
          (case load_by_scheme env None u of
             Inl err \<Rightarrow> []
           | Inr k \<Rightarrow> filter (\<lambda>key. key \<noteq> ''_meta'') (MapKeys k)))"

text \<open>
  The invariant of merging. \<open>merged\<close> are the declarations (locator, id) of the loaded
  documents, less a set \<open>X\<close> of declarations still to be appended; the instance is
  consistent when no id is merged twice and the table holds exactly the merged ids.
  \<open>distinct_keys\<close> says that the documents of the environment list no top-level key
  twice, as the keys of a Go map never are.
\<close>

definition merged :: "'w env \<Rightarrow> 'w duck \<Rightarrow> (string \<times> string) set \<Rightarrow> (string \<times> string) set" where
  "merged env d X = {(s, key). key \<in> set (declared_by env (duck_Duckfiles d) s)} - X"

definition consistent :: "'w env \<Rightarrow> (string \<times> string) set \<Rightarrow> 'w duck \<Rightarrow> bool" where
  "consistent env X d =
     (inj_on snd (merged env d X) \<and> snd ` merged env d X = fmdom' (duck_Targets d) \<and>
      (\<forall>(s, key) \<in> X. fmlookup (duck_Duckfiles d) s \<noteq> None))"

definition grows :: "'w duck \<Rightarrow> 'w duck \<Rightarrow> bool" where
  "grows d d' =
     (\<forall>s u. fmlookup (duck_Duckfiles d) s = Some u \<longrightarrow> fmlookup (duck_Duckfiles d') s = Some u)"

definition distinct_keys :: "'w env \<Rightarrow> bool" where
  "distinct_keys env = (\<forall>u k. load_by_scheme env None u = Inr k \<longrightarrow> distinct (MapKeys k))"

text \<open>Every target of the table is stored under its own id.\<close>

definition stored_by_id :: "'w duck \<Rightarrow> bool" where
  "stored_by_id d = (\<forall>k t. fmlookup (duck_Targets d) k = Some t \<longrightarrow> TargetId t = k)"

definition ids_ok :: "'w duck \<Rightarrow> 'w duck \<Rightarrow> bool" where
  "ids_ok d d' = (stored_by_id d \<longrightarrow> stored_by_id d')"

section \<open>Example tables\<close>

text \<open>
  Small inputs over the one-point world: a context that is never cancelled, targets
  without checks and actions, a check that fails, and tables built from them.
\<close>

definition no_cancel :: "unit \<Rightarrow> error option" where
  "no_cancel w = None"

definition plain_target :: "string \<Rightarrow> string list \<Rightarrow> unit target" where
  "plain_target k ds =
     \<lparr>TargetId = k, Checks = [], Actions = [], Cleared = False,
      Config = \<lparr>CancelOnCheckFailure = None, CancelOnActionFailure = Some True,
                ExitOnCheckFailure = None, ExitOnActionFailure = None\<rparr>,
      Dependencies = ds\<rparr>"

definition failing_check :: "bool option \<Rightarrow> unit check" where
  "failing_check cancel =
     \<lparr>chk_Execute = (\<lambda>w. (None, w)), chk_Check = (\<lambda>w. False),
      chk_GetConfig = \<lparr>Invert = False, chk_CancelOnFailure = cancel, chk_ExitOnFailure = None\<rparr>\<rparr>"

definition gated_target :: "string \<Rightarrow> string list \<Rightarrow> unit target" where
  "gated_target k ds = (plain_target k ds)\<lparr>Checks := [failing_check (Some True)]\<rparr>"

text \<open>The state of a top-level call: an empty lineage and an empty log.\<close>

definition start :: "(string, 'w target) fmap \<Rightarrow> 'w \<Rightarrow> 'w rstate" where
  "start T w = \<lparr>Targets = T, Lineage = {}, World = w, Log = []\<rparr>"

definition diamond :: "(string, unit target) fmap" where
  "diamond = fmap_of_list
     [(''root'', plain_target ''root'' [''b'', ''c'']),
      (''b'', plain_target ''b'' [''d'']),
      (''c'', plain_target ''c'' [''d'']),
      (''d'', plain_target ''d'' [])]"



text \<open>The result of a call and the bodies it executed.\<close>

definition run_bodies ::
  "nat \<Rightarrow> ('w \<Rightarrow> error option) \<Rightarrow> string \<Rightarrow> 'w rstate \<Rightarrow> (outcome \<times> string list) option" where
  "run_bodies n ctx x s =
     (case RunTarget n ctx x s of None \<Rightarrow> None | Some (r, s') \<Rightarrow> Some (r, bodies (Log s')))"



text \<open>A check and an action whose \<^verbatim>\<open>Execute\<close> fails, a check that passes, and targets with them.\<close>

definition erroring_check :: "unit check" where
  "erroring_check =
     \<lparr>chk_Execute = (\<lambda>w. (Some (Err ''boom''), w)), chk_Check = (\<lambda>w. True),
      chk_GetConfig = \<lparr>Invert = False, chk_CancelOnFailure = Some False,
                       chk_ExitOnFailure = Some False\<rparr>\<rparr>"

definition passing_check :: "unit check" where
  "passing_check =
     \<lparr>chk_Execute = (\<lambda>w. (None, w)), chk_Check = (\<lambda>w. True),
      chk_GetConfig = \<lparr>Invert = False, chk_CancelOnFailure = None, chk_ExitOnFailure = None\<rparr>\<rparr>"

definition erroring_action :: "bool option \<Rightarrow> unit action" where
  "erroring_action cancel =
     \<lparr>act_Execute = (\<lambda>w. (Some (Err ''bang''), w)),
      act_GetConfig = \<lparr>act_CancelOnFailure = cancel, act_ExitOnFailure = None\<rparr>\<rparr>"




definition soft_target :: "unit target" where
  "soft_target =
     \<lparr>TargetId = ''soft'',
      Checks = [passing_check, failing_check (Some False), erroring_check],
      Actions = [erroring_action None],
      Cleared = False,
      Config = \<lparr>CancelOnCheckFailure = Some True, CancelOnActionFailure = Some True,
                ExitOnCheckFailure = None, ExitOnActionFailure = None\<rparr>,
      Dependencies = []\<rparr>"

section \<open>Example documents\<close>

text \<open>
  A small environment: three documents chained by their \<^verbatim>\<open>_meta\<close> sections, one that
  declares a target id again, and an empty bucket; the instances that compiling them
  gives.
\<close>

definition toy_url :: "string \<Rightarrow> url" where
  "toy_url s =
     (if prefix ''s3://'' s then
        \<lparr>Scheme = ''s3'', Host = takeWhile (\<lambda>c. c \<noteq> CHR ''/'') (drop 5 s),
         Path = dropWhile (\<lambda>c. c \<noteq> CHR ''/'') (drop 5 s), RawQuery = []\<rparr>
      else \<lparr>Scheme = ''http'', Host = drop 7 s, Path = [], RawQuery = []\<rparr>)"

definition toy_doc :: "string \<Rightarrow> error + unit document" where
  "toy_doc data =
     (if data = ''http://a'' then
        Inr \<lparr>MapKeys = [''_meta'', ''default''], meta_dependencies = [''http://b''],
             NewTarget = (\<lambda>name. Inr (plain_target name [''lib'']))\<rparr>
      else if data = ''http://b'' then
        Inr \<lparr>MapKeys = [''_meta'', ''lib''], meta_dependencies = [''http://c''],
             NewTarget = (\<lambda>name. Inr (plain_target name []))\<rparr>
      else if data = ''http://c'' then
        Inr \<lparr>MapKeys = [''extra''], meta_dependencies = [],
             NewTarget = (\<lambda>name. Inr (plain_target name []))\<rparr>
      else if data = ''http://dup'' then
        Inr \<lparr>MapKeys = [''lib''], meta_dependencies = [],
             NewTarget = (\<lambda>name. Inr (plain_target name []))\<rparr>
      else Inl (Err ''not a document''))"

definition empty_bucket :: bucket where
  "empty_bucket =
     \<lparr>bucket_List = (\<lambda>p. ([], None)), bucket_Exists = (\<lambda>key. Inr False),
      bucket_NewReader = (\<lambda>key. Inl (Err ''no such object''))\<rparr>"

definition toy_env :: "unit env" where
  "toy_env =
     \<lparr>url_Parse = (\<lambda>s. Inr (toy_url s)),
      url_String = (\<lambda>u. Scheme u @ ''://'' @ Host u @ Path u),
      filepath_Abs = Inr,
      filepath_Join = (\<lambda>a b. a @ ''/'' @ b),
      os_Stat = (\<lambda>p. Inl (Err ''no such file'')),
      os_ReadDir = (\<lambda>p. Inl (Err ''no such directory'')),
      blob_OpenBucket = (\<lambda>s. Inr empty_bucket),
      http_Get = (\<lambda>s. Inr (Inr s)),
      koanf_Load_file = (\<lambda>p. Inl (Err ''no such file'')),
      koanf_Load_rawbytes = toy_doc\<rparr>"

definition toy_duck :: "string list \<Rightarrow> unit duck" where
  "toy_duck files =
     \<lparr>duck_Config = \<lparr>cfg_Files = files, cfg_ListTargets = False, cfg_Target = ''default''\<rparr>,
      duck_Duckfiles = fmempty, duck_Targets = fmempty\<rparr>"

definition dup_doc :: "unit document" where
  "dup_doc = \<lparr>MapKeys = [''lib''], meta_dependencies = [],
              NewTarget = (\<lambda>name. Inr (plain_target name []))\<rparr>"

definition toy_compiled :: "unit duck" where
  "toy_compiled =
     \<lparr>duck_Config = \<lparr>cfg_Files = [''http://a''], cfg_ListTargets = False, cfg_Target = ''default''\<rparr>,
      duck_Duckfiles = fmupd ''http://b'' (toy_url ''http://b'')
                         (fmupd ''http://a'' (toy_url ''http://a'') fmempty),
      duck_Targets = fmupd ''default'' (plain_target ''default'' [''lib''])
                       (fmupd ''lib'' (plain_target ''lib'' []) fmempty)\<rparr>"

definition toy_failed :: "unit duck" where
  "toy_failed =
     \<lparr>duck_Config = \<lparr>cfg_Files = [''http://a'', ''http://dup''], cfg_ListTargets = False,
                     cfg_Target = ''default''\<rparr>,
      duck_Duckfiles = fmupd ''http://dup'' (toy_url ''http://dup'')
                         (fmupd ''http://b'' (toy_url ''http://b'')
                           (fmupd ''http://a'' (toy_url ''http://a'') fmempty)),
      duck_Targets = fmupd ''default'' (plain_target ''default'' [''lib''])
                       (fmupd ''lib'' (plain_target ''lib'' []) fmempty)\<rparr>"





section \<open>Policy resolution\<close>

text \<open>
  C3. Each of the four policy expressions of \<^verbatim>\<open>Target.Run\<close> (exit and cancel, for a
  check and for an action) is the item-level override when that pointer is non-nil,
  otherwise the target-level default when that pointer is non-nil, otherwise false. In
  particular an item-level false overrides a target-level true, for all four.
\<close>

theorem policy_resolution:
  "check_shouldExit t c = spec_effective (chk_ExitOnFailure c) (ExitOnCheckFailure (Config t)) \<and>
   check_shouldCancel t c = spec_effective (chk_CancelOnFailure c) (CancelOnCheckFailure (Config t)) \<and>
   action_shouldExit t a = spec_effective (act_ExitOnFailure a) (ExitOnActionFailure (Config t)) \<and>
   action_shouldCancel t a = spec_effective (act_CancelOnFailure a) (CancelOnActionFailure (Config t)) \<and>
   check_shouldCancel (t\<lparr>Config := (Config t)\<lparr>CancelOnCheckFailure := Some True\<rparr>\<rparr>)
       (c\<lparr>chk_CancelOnFailure := Some False\<rparr>) = False \<and>
   check_shouldExit (t\<lparr>Config := (Config t)\<lparr>ExitOnCheckFailure := Some True\<rparr>\<rparr>)
       (c\<lparr>chk_ExitOnFailure := Some False\<rparr>) = False \<and>
   action_shouldCancel (t\<lparr>Config := (Config t)\<lparr>CancelOnActionFailure := Some True\<rparr>\<rparr>)
       (a\<lparr>act_CancelOnFailure := Some False\<rparr>) = False \<and>
   action_shouldExit (t\<lparr>Config := (Config t)\<lparr>ExitOnActionFailure := Some True\<rparr>\<rparr>)
       (a\<lparr>act_ExitOnFailure := Some False\<rparr>) = False"
  by (auto simp: check_shouldExit_def check_shouldCancel_def action_shouldExit_def
      action_shouldCancel_def spec_effective_def split: option.splits)

section \<open>Basic facts about Target.Run\<close>

lemma bodies_append [simp]: "bodies (xs @ ys) = bodies xs @ bodies ys"
  by (induction xs) (auto split: event.splits)

lemma entered_append [simp]: "entered (xs @ ys) = entered xs @ entered ys"
  by (induction xs) (auto split: event.splits)

lemma calls_of_append [simp]: "calls_of p (xs @ ys) = calls_of p xs @ calls_of p ys"
  by (induction xs) (auto split: event.splits)

lemma run_checks_frame:
  "run_checks t i cs w l = (r, t', w', l') \<Longrightarrow>
     t' = (if r = Some Ok then t\<lparr>Cleared := True\<rparr> else t) \<and> (\<exists>L. l' = l @ L \<and> plugin_only L)"
proof (induction cs arbitrary: i w l)
  case Nil
  then show ?case by (simp add: plugin_only_def)
next
  case (Cons c cs)
  show ?case
  proof (cases "chk_Execute c w")
    case (Pair e w1)
    show ?thesis
    proof (cases e)
      case (Some err)
      with Pair Cons.prems show ?thesis by (auto simp: plugin_only_def)
    next
      case None
      show ?thesis
      proof (cases "chk_Check c w1")
        case False
        with None Pair Cons.prems show ?thesis
          by (auto simp: plugin_only_def split: if_splits)
      next
        case True
        with None Pair Cons.prems
        have "run_checks t (Suc i) cs w1 (l @ [CheckExec (TargetId t) i None]) = (r, t', w', l')"
          by simp
        from Cons.IH[OF this] show ?thesis
          by (auto simp: plugin_only_def)
      qed
    qed
  qed
qed

lemma run_actions_frame:
  "run_actions t i as w l = (r, t', w', l') \<Longrightarrow>
     t' = (if r = Some Ok then t\<lparr>Cleared := True\<rparr> else t) \<and> (\<exists>L. l' = l @ L \<and> plugin_only L)"
proof (induction as arbitrary: i w l)
  case Nil
  then show ?case by (simp add: plugin_only_def)
next
  case (Cons a as)
  show ?case
  proof (cases "act_Execute a w")
    case (Pair e w1)
    show ?thesis
    proof (cases e)
      case (Some err)
      with Pair Cons.prems show ?thesis by (auto simp: plugin_only_def split: if_splits)
    next
      case None
      with Pair Cons.prems
      have "run_actions t (Suc i) as w1 (l @ [ActionExec (TargetId t) i None]) = (r, t', w', l')"
        by simp
      from Cons.IH[OF this] show ?thesis
        by (auto simp: plugin_only_def)
    qed
  qed
qed

text \<open>What one call of Target.Run can do to the target and the log.\<close>

lemma Target_Run_effect:
  assumes "Target_Run ctx t w l = (r, t', w', l')"
  shows "(t' = t \<or> (r = Ok \<and> t' = t\<lparr>Cleared := True\<rparr>)) \<and>
         (\<exists>L. l' = l @ L \<and> entered L = [] \<and> (\<forall>p. calls_of p L = []) \<and>
              (bodies L = [] \<or> bodies L = [TargetId t]) \<and>
              (r = Ok \<and> \<not> Cleared t \<longrightarrow> bodies L = [TargetId t] \<and> Cleared t'))"
proof (cases "Cleared t \<or> ctx w \<noteq> None")
  case True
  with assms show ?thesis by (auto simp: Target_Run_def split: if_splits)
next
  case False
  obtain r1 t1 w1 l1 where c: "run_checks t 0 (Checks t) w (l @ [Body (TargetId t)]) = (r1, t1, w1, l1)"
    by (cases "run_checks t 0 (Checks t) w (l @ [Body (TargetId t)])") auto
  from run_checks_frame[OF c] obtain L1 where
    t1: "t1 = (if r1 = Some Ok then t\<lparr>Cleared := True\<rparr> else t)" and
    l1: "l1 = (l @ [Body (TargetId t)]) @ L1" and p1: "plugin_only L1" by blast
  show ?thesis
  proof (cases r1)
    case (Some res)
    with False c assms have "r = res" "t' = t1" "l' = l1" by (auto simp: Target_Run_def)
    with t1 l1 p1 Some show ?thesis by (auto simp: plugin_only_def)
  next
    case None
    with t1 have t1': "t1 = t" by auto
    obtain r2 t2 w2 l2 where a: "run_actions t1 0 (Actions t1) w1 l1 = (r2, t2, w2, l2)"
      by (cases "run_actions t1 0 (Actions t1) w1 l1") auto
    from run_actions_frame[OF a] obtain L2 where
      t2: "t2 = (if r2 = Some Ok then t1\<lparr>Cleared := True\<rparr> else t1)" and
      l2: "l2 = l1 @ L2" and p2: "plugin_only L2" by blast
    show ?thesis
    proof (cases r2)
      case (Some res)
      with None False c a assms have "r = res" "t' = t2" "l' = l2" by (auto simp: Target_Run_def)
      with t1' t2 l1 l2 p1 p2 Some show ?thesis by (auto simp: plugin_only_def)
    next
      case None2: None
      with None False c a assms have "r = Ok" "t' = t2\<lparr>Cleared := True\<rparr>" "l' = l2"
        by (auto simp: Target_Run_def)
      with t1' t2 l1 l2 p1 p2 None2 show ?thesis by (auto simp: plugin_only_def)
    qed
  qed
qed

section \<open>Basic facts about RunTarget\<close>

lemma evolves_refl: "evolves s s"
  by (auto simp: evolves_def)

lemma evolves_trans: "evolves s1 s2 \<Longrightarrow> evolves s2 s3 \<Longrightarrow> evolves s1 s3"
  unfolding evolves_def
  apply (elim conjE exE)
  apply (intro conjI)
    apply (rule_tac x = "L @ La" in exI)
    apply auto[1]
   apply simp
  apply (intro allI impI)
  apply (drule_tac x = k in spec)
  apply (drule_tac x = k in spec)
  apply auto
  done

lemma evolves_call: "evolves s (s\<lparr>Log := Log s @ [Call p d]\<rparr>)"
  by (auto simp: evolves_def)

lemma evolves_enter: "evolves s (s\<lparr>Lineage := insert x (Lineage s), Log := Log s @ [Enter x]\<rparr>)"
  by (auto simp: evolves_def)

lemma evolves_body:
  assumes "fmlookup (Targets s) x = Some t" "Target_Run ctx t (World s) (Log s) = (r, t', w', l')"
  shows "evolves s (s\<lparr>Targets := fmupd x t' (Targets s), World := w', Log := l'\<rparr>)"
proof -
  from Target_Run_effect[OF assms(2)] obtain L where
    t': "t' = t \<or> t' = t\<lparr>Cleared := True\<rparr>" and l': "l' = Log s @ L" and e: "entered L = []"
    by blast
  have "x \<in> fmdom' (Targets s)" using assms(1) by (simp add: fmdom'I)
  then have "fmdom' (fmupd x t' (Targets s)) = fmdom' (Targets s)" by auto
  with t' l' e assms(1) show ?thesis
    by (auto simp: evolves_def)
qed

lemma RunTarget_SucE:
  assumes "RunTarget (Suc n) ctx x s = Some (r, s')"
  obtains
    (cancelled) err where "ctx (World s) = Some err"
      "r = Failed (Wrap ''context cancelled before execution'' err)" "s' = s"
  | (missing) "ctx (World s) = None" "fmlookup (Targets s) x = None"
      "r = Failed (Err (''target '' @ x @ '' not found''))" "s' = s"
  | (skip) t where "ctx (World s) = None" "fmlookup (Targets s) x = Some t"
      "x \<in> Lineage s \<or> Cleared t" "r = Ok" "s' = s"
  | (dep_failed) t where "ctx (World s) = None" "fmlookup (Targets s) x = Some t"
      "x \<notin> Lineage s" "\<not> Cleared t"
      "run_deps (RunTarget n ctx) x (Dependencies t) (enter x s) = Some (r, s')" "r \<noteq> Ok"
  | (panic) t where "ctx (World s) = None" "fmlookup (Targets s) x = Some t"
      "x \<notin> Lineage s" "\<not> Cleared t"
      "run_deps (RunTarget n ctx) x (Dependencies t) (enter x s) = Some (Ok, s')"
      "fmlookup (Targets s') x = None" "r = Panic"
  | (body) t s1 t1 t2 w2 l2 where "ctx (World s) = None" "fmlookup (Targets s) x = Some t"
      "x \<notin> Lineage s" "\<not> Cleared t"
      "run_deps (RunTarget n ctx) x (Dependencies t) (enter x s) = Some (Ok, s1)"
      "fmlookup (Targets s1) x = Some t1"
      "Target_Run ctx t1 (World s1) (Log s1) = (r, t2, w2, l2)"
      "s' = after_body x t2 w2 l2 s1"
proof (cases "ctx (World s)")
  case (Some err)
  with assms have "r = Failed (Wrap ''context cancelled before execution'' err)" "s' = s"
    by simp_all
  with Some show ?thesis by (rule cancelled)
next
  case None
  show ?thesis
  proof (cases "fmlookup (Targets s) x")
    case N: None
    with None assms have "r = Failed (Err (''target '' @ x @ '' not found''))" "s' = s"
      by simp_all
    with None N show ?thesis by (rule missing)
  next
    case (Some t)
    show ?thesis
    proof (cases "x \<in> Lineage s \<or> Cleared t")
      case True
      with None Some assms have "r = Ok" "s' = s" by (auto split: if_splits)
      with None Some True show ?thesis by (rule skip)
    next
      case False
      then have nl: "x \<notin> Lineage s" and nc: "\<not> Cleared t" by auto
      from nl nc None Some assms obtain r1 s1 where
        d: "run_deps (RunTarget n ctx) x (Dependencies t) (enter x s) = Some (r1, s1)"
        by (auto simp: enter_def split: option.splits)
      show ?thesis
      proof (cases "r1 = Ok")
        case F: False
        with nl nc None Some assms d have "r = r1" "s' = s1" by (auto simp: enter_def)
        with F d nl nc None Some show ?thesis by (auto intro: dep_failed)
      next
        case True
        show ?thesis
        proof (cases "fmlookup (Targets s1) x")
          case N1: None
          with True nl nc None Some assms d have "r = Panic" "s' = s1" by (auto simp: enter_def)
          with True N1 d nl nc None Some show ?thesis by (auto intro: panic)
        next
          case S1: (Some t1)
          obtain r2 t2 w2 l2 where b: "Target_Run ctx t1 (World s1) (Log s1) = (r2, t2, w2, l2)"
            by (cases "Target_Run ctx t1 (World s1) (Log s1)") auto
          from True S1 b nl nc None Some assms d
          have "r = r2" "s' = after_body x t2 w2 l2 s1"
            by (auto simp: enter_def after_body_def)
          with True S1 b d nl nc None Some show ?thesis by (auto intro: body)
        qed
      qed
    qed
  qed
qed





declare RunTarget.simps(2) [simp del]

lemma run_deps_ConsE:
  assumes "run_deps f p (d # ds) s = Some (r, s')"
  obtains
    (stop) "f d (s\<lparr>Log := Log s @ [Call p d]\<rparr>) = Some (r, s')" "r \<noteq> Ok"
  | (continue) s1 where "f d (s\<lparr>Log := Log s @ [Call p d]\<rparr>) = Some (Ok, s1)"
      "run_deps f p ds s1 = Some (r, s')"
  using assms by (auto split: option.splits if_splits)

lemma evolves_enter': "evolves s (enter x s)"
  unfolding enter_def by (rule evolves_enter)

lemma evolves_body':
  assumes "fmlookup (Targets s) x = Some t" "Target_Run ctx t (World s) (Log s) = (r, t', w', l')"
  shows "evolves s (after_body x t' w' l' s)"
  unfolding after_body_def using assms by (rule evolves_body)

lemma run_deps_rel:
  assumes step: "\<And>d s r s'. f d s = Some (r, s') \<Longrightarrow> R s s'"
    and refl: "\<And>s. R s s"
    and trans: "\<And>s1 s2 s3. R s1 s2 \<Longrightarrow> R s2 s3 \<Longrightarrow> R s1 s3"
    and call: "\<And>s d. R s (s\<lparr>Log := Log s @ [Call p d]\<rparr>)"
  shows "run_deps f p ds s = Some (r, s') \<Longrightarrow> R s s'"
proof (induction ds arbitrary: s)
  case Nil
  then show ?case using refl by simp
next
  case (Cons d ds)
  from Cons.prems show ?case
  proof (cases rule: run_deps_ConsE)
    case stop
    from trans[OF call step[OF stop(1)]] show ?thesis .
  next
    case (continue s1)
    from trans[OF trans[OF call step[OF continue(1)]] Cons.IH[OF continue(2)]] show ?thesis .
  qed
qed

lemma RunTarget_evolves:
  "RunTarget n ctx x s = Some (r, s') \<Longrightarrow> evolves s s'"
proof (induction n arbitrary: x s r s')
  case 0
  then show ?case by simp
next
  case (Suc n)
  have deps: "evolves s0 s1" if "run_deps (RunTarget n ctx) x ds s0 = Some (r1, s1)" for ds s0 r1 s1
    by (rule run_deps_rel[where R = evolves and f = "RunTarget n ctx", OF Suc.IH evolves_refl evolves_trans evolves_call that])
  from Suc.prems show ?case
  proof (cases rule: RunTarget_SucE)
    case (dep_failed t)
    from evolves_trans[OF evolves_enter' deps[OF dep_failed(5)]] show ?thesis .
  next
    case (panic t)
    from evolves_trans[OF evolves_enter' deps[OF panic(5)]] show ?thesis .
  next
    case (body t s1 t1 t2 w2 l2)
    from evolves_trans[OF evolves_trans[OF evolves_enter' deps[OF body(5)]]
        evolves_body'[OF body(6) body(7)]] body(8)
    show ?thesis by simp
  qed (simp_all add: evolves_refl)
qed

section \<open>Fuel: RunTarget returns\<close>





lemma unvisited_call [simp]: "unvisited (s\<lparr>Log := l\<rparr>) = unvisited s"
  by (simp add: unvisited_def)




section \<open>The traversal invariant\<close>

lemma deps_first_Nil [simp]: "deps_first g []"
  by (simp add: deps_first_def)









lemma run_deps_evolves:
  "run_deps (RunTarget n ctx) p ds s = Some (r, s') \<Longrightarrow> evolves s s'"
  by (rule run_deps_rel[where R = evolves and f = "RunTarget n ctx",
        OF RunTarget_evolves evolves_refl evolves_trans evolves_call])








section \<open>Traversal of an acyclic dependency graph\<close>






lemmas engine_eval =
  run_bodies_def eval_nat_numeral RunTarget.simps start_def fmlookup_of_list
  plain_target_def gated_target_def failing_check_def no_cancel_def Target_Run_def
  check_shouldExit_def check_shouldCancel_def action_shouldExit_def action_shouldCancel_def


text \<open>The run of the diamond, computed.\<close>

lemma diamond_run:
  "run_bodies 5 no_cancel ''root'' (start diamond ()) =
     Some (Ok, [''d'', ''b'', ''c'', ''root''])"
  by (simp add: engine_eval diamond_def)


section \<open>A cycle of two targets\<close>





section \<open>Errors in the log\<close>

lemma check_errors_append [simp]: "check_errors (xs @ ys) = check_errors xs @ check_errors ys"
  by (induction xs) (auto split: event.splits option.splits)

lemma action_errors_append [simp]: "action_errors (xs @ ys) = action_errors xs @ action_errors ys"
  by (induction xs) (auto split: event.splits option.splits)



lemma fatal_last_no_errors: "check_errors L = [] \<Longrightarrow> fatal_last L r"
  by (simp add: fatal_last_def)











section \<open>Execution errors of checks and actions\<close>



lemma run_checks_append:
  "run_checks t i pre w l = (None, t1, w1, l1) \<Longrightarrow>
   run_checks t i (pre @ rest) w l = run_checks t (i + length pre) rest w1 l1"
proof (induction pre arbitrary: i w l)
  case Nil
  then show ?case by simp
next
  case (Cons c pre)
  obtain e w' where ex: "chk_Execute c w = (e, w')" by (cases "chk_Execute c w")
  with Cons.prems have e: "e = None" and chk: "chk_Check c w'"
    by (auto split: option.splits if_splits)
  with ex Cons.prems
  have "run_checks t (Suc i) pre w' (l @ [CheckExec (TargetId t) i None]) = (None, t1, w1, l1)"
    by simp
  from Cons.IH[OF this] ex e chk show ?case by simp
qed

section \<open>The soft stop\<close>

text \<open>
  C4. Let the checks before \<open>c\<close> pass, and let \<open>c\<close> execute without error and
  fail, with neither exit nor cancel resolved. Then \<^verbatim>\<open>Target.Run\<close> returns nil with the
  target Cleared, in the world left by the \<^verbatim>\<open>Execute\<close> of \<open>c\<close> and with that call as
  the last event: no later check and no action is executed. An item-level
  cancelOnFailure = false resolves to no cancellation under any target.
\<close>

theorem failing_check_soft_stop:
  assumes nc: "\<not> Cleared t" and ctx: "ctx w = None"
    and split: "Checks t = pre @ c # post"
    and pre: "run_checks t 0 pre w (l @ [Body (TargetId t)]) = (None, t1, w1, l1)"
    and ex: "chk_Execute c w1 = (None, w2)"
    and fail: "\<not> chk_Check c w2"
    and no_exit: "\<not> check_shouldExit t (chk_GetConfig c)"
    and no_cancel: "\<not> check_shouldCancel t (chk_GetConfig c)"
  shows "Target_Run ctx t w l =
           (Ok, t\<lparr>Cleared := True\<rparr>, w2, l1 @ [CheckExec (TargetId t) (length pre) None]) \<and>
         (\<forall>t'. chk_CancelOnFailure (chk_GetConfig c) = Some False \<longrightarrow>
               \<not> check_shouldCancel (t' :: 'a target) (chk_GetConfig c))"
proof
  from ex fail no_exit no_cancel
  have "run_checks t (length pre) (c # post) w1 l1 =
          (Some Ok, t\<lparr>Cleared := True\<rparr>, w2, l1 @ [CheckExec (TargetId t) (length pre) None])"
    by simp
  with pre have "run_checks t 0 (Checks t) w (l @ [Body (TargetId t)]) =
          (Some Ok, t\<lparr>Cleared := True\<rparr>, w2, l1 @ [CheckExec (TargetId t) (length pre) None])"
    unfolding split by (simp add: run_checks_append)
  with nc ctx show "Target_Run ctx t w l =
           (Ok, t\<lparr>Cleared := True\<rparr>, w2, l1 @ [CheckExec (TargetId t) (length pre) None])"
    by (simp add: Target_Run_def)
next
  show "\<forall>t'. chk_CancelOnFailure (chk_GetConfig c) = Some False \<longrightarrow>
               \<not> check_shouldCancel (t' :: 'a target) (chk_GetConfig c)"
    by (simp add: check_shouldCancel_def)
qed

text \<open>
  The theorem at a target with cancelOnCheckFailure = true whose second check fails
  under an item-level cancelOnFailure = false.
\<close>

theorem failing_check_soft_stop_witness:
  "Target_Run no_cancel soft_target () [] =
     (Ok, soft_target\<lparr>Cleared := True\<rparr>, (),
      [Body ''soft'', CheckExec ''soft'' 0 None, CheckExec ''soft'' 1 None]) \<and>
   CancelOnCheckFailure (Config soft_target) = Some True \<and>
   \<not> check_shouldCancel soft_target (chk_GetConfig (failing_check (Some False)))"
proof -
  have 1: "\<not> Cleared soft_target" "no_cancel () = None"
    "Checks soft_target = [passing_check] @ failing_check (Some False) # [erroring_check]"
    by (simp_all add: soft_target_def no_cancel_def)
  have 2: "run_checks soft_target 0 [passing_check] () ([] @ [Body (TargetId soft_target)]) =
      (None, soft_target, (), [Body ''soft'', CheckExec ''soft'' 0 None])"
    by (simp add: soft_target_def passing_check_def)
  have 3: "chk_Execute (failing_check (Some False)) () = (None, ())"
    "\<not> chk_Check (failing_check (Some False)) ()"
    "\<not> check_shouldExit soft_target (chk_GetConfig (failing_check (Some False)))"
    "\<not> check_shouldCancel soft_target (chk_GetConfig (failing_check (Some False)))"
    by (simp_all add: failing_check_def soft_target_def check_shouldExit_def check_shouldCancel_def)
  have 4: "TargetId soft_target = ''soft''" "CancelOnCheckFailure (Config soft_target) = Some True"
    by (simp_all add: soft_target_def)
  from failing_check_soft_stop[where ctx = no_cancel and w = "()" and l = "[]", OF 1 2 3]
  have "Target_Run no_cancel soft_target () [] =
     (Ok, soft_target\<lparr>Cleared := True\<rparr>, (),
      [Body ''soft'', CheckExec ''soft'' 0 None] @
      [CheckExec (TargetId soft_target) (length [passing_check]) None])"
    by (rule conjunct1)
  with 3(4) 4 show ?thesis by simp
qed


section \<open>No panic\<close>

text \<open>
  The panic branch of the model is dead: \<^verbatim>\<open>d.Targets[target]\<close> is never nil when
  \<^verbatim>\<open>Run\<close> is called on it, because no key ever leaves the table.
\<close>

lemma run_checks_no_panic: "run_checks t i cs w l = (Some r, t', w', l') \<Longrightarrow> r \<noteq> Panic"
proof (induction cs arbitrary: i w l)
  case Nil
  then show ?case by simp
next
  case (Cons c cs)
  obtain e w1 where ex: "chk_Execute c w = (e, w1)" by (cases "chk_Execute c w")
  show ?case
  proof (cases "e = None \<and> chk_Check c w1")
    case True
    with ex Cons.prems
    have "run_checks t (Suc i) cs w1 (l @ [CheckExec (TargetId t) i None]) = (Some r, t', w', l')"
      by simp
    then show ?thesis by (rule Cons.IH)
  next
    case False
    with ex Cons.prems show ?thesis by (auto split: option.splits if_splits)
  qed
qed

lemma run_actions_no_panic: "run_actions t i as w l = (Some r, t', w', l') \<Longrightarrow> r \<noteq> Panic"
proof (induction as arbitrary: i w l)
  case Nil
  then show ?case by simp
next
  case (Cons a as)
  obtain e w1 where ex: "act_Execute a w = (e, w1)" by (cases "act_Execute a w")
  show ?case
  proof (cases e)
    case None
    with ex Cons.prems
    have "run_actions t (Suc i) as w1 (l @ [ActionExec (TargetId t) i None]) = (Some r, t', w', l')"
      by simp
    then show ?thesis by (rule Cons.IH)
  next
    case (Some err)
    with ex Cons.prems show ?thesis by (auto split: if_splits)
  qed
qed

lemma Target_Run_no_panic: "Target_Run ctx t w l = (r, t', w', l') \<Longrightarrow> r \<noteq> Panic"
  by (auto simp: Target_Run_def split: if_splits prod.splits option.splits
      dest: run_checks_no_panic run_actions_no_panic)

lemma run_deps_no_panic:
  assumes "\<And>d s r s'. f d s = Some (r, s') \<Longrightarrow> r \<noteq> Panic"
  shows "run_deps f p ds s = Some (r, s') \<Longrightarrow> r \<noteq> Panic"
proof (induction ds arbitrary: s)
  case Nil
  then show ?case by auto
next
  case (Cons d ds)
  from Cons.prems show ?case
  proof (cases rule: run_deps_ConsE)
    case stop
    from assms[OF stop(1)] show ?thesis .
  next
    case (continue s1)
    from Cons.IH[OF continue(2)] show ?thesis .
  qed
qed

lemma RunTarget_no_panic: "RunTarget n ctx x s = Some (r, s') \<Longrightarrow> r \<noteq> Panic"
proof (induction n arbitrary: x s r s')
  case 0
  then show ?case by simp
next
  case (Suc n)
  from Suc.prems show ?case
  proof (cases rule: RunTarget_SucE)
    case (dep_failed t)
    from run_deps_no_panic[where f = "RunTarget n ctx", OF Suc.IH dep_failed(5)] show ?thesis .
  next
    case (panic t)
    from evolves_trans[OF evolves_enter' run_deps_evolves[OF panic(5)]] panic(2)
    obtain t' where "fmlookup (Targets s') x = Some t'" unfolding evolves_def by blast
    with panic(6) show ?thesis by simp
  next
    case (body t s1 t1 t2 w2 l2)
    from Target_Run_no_panic[OF body(7)] show ?thesis .
  qed simp_all
qed

section \<open>Which locators a pass loads\<close>

declare LoadDuckfile.simps [simp del]

lemma for_each_rel:
  assumes refl: "\<And>s. R s s"
    and trans: "\<And>s1 s2 s3. R s1 s2 \<Longrightarrow> R s2 s3 \<Longrightarrow> R s1 s3"
  shows "for_each f xs s = (r, s') \<Longrightarrow>
         (\<And>x s r s'. x \<in> set xs \<Longrightarrow> f x s = (r, s') \<Longrightarrow> R s s') \<Longrightarrow> R s s'"
proof (induction xs arbitrary: s)
  case Nil
  then show ?case using refl by simp
next
  case (Cons x xs)
  obtain r1 s1 where f: "f x s = (r1, s1)" by (cases "f x s")
  have R1: "R s s1" using Cons.prems(2)[OF _ f] by simp
  show ?case
  proof (cases r1)
    case None
    with f Cons.prems(1) have fe: "for_each f xs s1 = (r, s')" by simp
    have "R s1 s'"
    proof (rule Cons.IH[OF fe])
      fix y t q t' assume "y \<in> set xs" "f y t = (q, t')"
      then show "R t t'" using Cons.prems(2)[of y t q t'] by simp
    qed
    with R1 show ?thesis by (rule trans)
  next
    case (Some err)
    with f Cons.prems(1) have "s' = s1" by simp
    with R1 show ?thesis by simp
  qed
qed


lemma LoadDuckfile_False_unfold:
  "LoadDuckfile env None d duckfile False =
     (if fmlookup (duck_Duckfiles d) (url_String env duckfile) \<noteq> None then (None, d)
      else
        (case load_by_scheme env None duckfile of
           Inl err \<Rightarrow>
             (Some err,
              d\<lparr>duck_Duckfiles := fmupd (url_String env duckfile) duckfile (duck_Duckfiles d)\<rparr>)
         | Inr k \<Rightarrow>
             for_each
               (\<lambda>key dk.
                  if key = ''_meta'' then (None, dk)
                  else
                    (case appendTarget None dk key k of
                       (Some err, dk') \<Rightarrow> (Some (Wrap (''failed to append target '' @ key) err), dk')
                     | (None, dk') \<Rightarrow> (None, dk')))
               (MapKeys k)
               (d\<lparr>duck_Duckfiles := fmupd (url_String env duckfile) duckfile (duck_Duckfiles d)\<rparr>)))"
  by (subst LoadDuckfile.simps) (simp split: sum.splits cong: if_cong)

lemma LoadDuckfile_cancelled:
  "LoadDuckfile env (Some err) d duckfile recurse =
     (Some (Wrap ''context cancelled before execution'' err), d)"
  by (subst LoadDuckfile.simps) simp






lemma LoadDuckfile_True_unfold:
  "LoadDuckfile env None d duckfile True =
     (if fmlookup (duck_Duckfiles d) (url_String env duckfile) \<noteq> None then (None, d)
      else
        (case load_by_scheme env None duckfile of
           Inl err \<Rightarrow>
             (Some err,
              d\<lparr>duck_Duckfiles := fmupd (url_String env duckfile) duckfile (duck_Duckfiles d)\<rparr>)
         | Inr k \<Rightarrow>
             for_each
               (\<lambda>key dk.
                  if key = ''_meta'' then
                    (if length (meta_dependencies k) > 0 then
                       for_each
                         (\<lambda>dep dd.
                            case GetDuckfiles env None dep of
                              Inl err \<Rightarrow>
                                (Some (Wrap (''failed to extract duckfile urls for dependency ''
                                             @ dep) err), dd)
                            | Inr depURLs \<Rightarrow>
                                for_each
                                  (\<lambda>depURL dl.
                                     case LoadDuckfile env None dl depURL False of
                                       (Some err, dl') \<Rightarrow>
                                         (Some (Wrap (''failed to load dependency duckfile ''
                                                      @ url_String env depURL) err), dl')
                                     | (None, dl') \<Rightarrow> (None, dl'))
                                  depURLs dd)
                         (meta_dependencies k) dk
                     else (None, dk))
                  else
                    (case appendTarget None dk key k of
                       (Some err, dk') \<Rightarrow> (Some (Wrap (''failed to append target '' @ key) err), dk')
                     | (None, dk') \<Rightarrow> (None, dk')))
               (MapKeys k)
               (d\<lparr>duck_Duckfiles := fmupd (url_String env duckfile) duckfile (duck_Duckfiles d)\<rparr>)))"
  by (subst LoadDuckfile.simps) (simp split: sum.splits cong: if_cong)







section \<open>Dependency documents are expanded one level deep\<close>


section \<open>A single object that does not exist\<close>

lemma TrimPrefix_slash:
  assumes "p \<noteq> []" "last p \<noteq> CHR ''/''"
  shows "strings_TrimPrefix p ''/'' \<noteq> [] \<and> \<not> strings_HasSuffix (strings_TrimPrefix p ''/'') ''/''"
proof (cases p)
  case Nil
  with assms show ?thesis by simp
next
  case (Cons c cs)
  show ?thesis
  proof (cases "c = CHR ''/''")
    case True
    with Cons assms have cs: "cs \<noteq> []" "last cs \<noteq> CHR ''/''" by (auto split: if_splits)
    from True Cons have "strings_TrimPrefix p ''/'' = cs"
      by (simp add: strings_TrimPrefix_def)
    with cs show ?thesis
      by (auto simp: strings_HasSuffix_def suffix_def)
  next
    case False
    with Cons have "strings_TrimPrefix p ''/'' = p"
      by (simp add: strings_TrimPrefix_def)
    with assms show ?thesis
      by (auto simp: strings_HasSuffix_def suffix_def)
  qed
qed

text \<open>
  C10. Let a locator parse to an object-storage URL whose path is not empty and does
  not end in a slash, let the bucket open, and let \<^verbatim>\<open>Exists\<close> answer false. Then
  \<^verbatim>\<open>handleCloudURL\<close>, and so \<^verbatim>\<open>GetDuckfiles\<close>, returns the empty list and no error, and
  the loop of \<^verbatim>\<open>CompileTargets\<close> goes on to the remaining locators with the instance
  unchanged.
\<close>

theorem missing_object_is_skipped:
  assumes "strings_Contains floc ''://''"
    and "url_Parse env floc = Inr u"
    and "Scheme u = ''s3'' \<or> Scheme u = ''gs'' \<or> Scheme u = ''azblob''"
    and "blob_OpenBucket env (cloud_bucketURL u) = Inr b"
    and "Path u \<noteq> []" and "last (Path u) \<noteq> CHR ''/''"
    and "bucket_Exists b (strings_TrimPrefix (Path u) ''/'') = Inr False"
  shows "handleCloudURL env None u floc = Inr [] \<and>
         GetDuckfiles env None floc = Inr [] \<and>
         compile_file env None floc d = (None, d) \<and>
         for_each (compile_file env None) (floc # rest) d = for_each (compile_file env None) rest d"
proof -
  from TrimPrefix_slash[OF assms(5,6)] assms(4,7)
  have h: "handleCloudURL env None u floc = Inr []"
    by (simp add: handleCloudURL_def)
  from assms(3) have "Scheme u \<noteq> ''file''" by auto
  with h assms(1,2,3) have g: "GetDuckfiles env None floc = Inr []"
    by (simp add: GetDuckfiles_def)
  then have c: "compile_file env None floc d = (None, d)"
    by (simp add: compile_file_def)
  with h g show ?thesis by simp
qed

section \<open>Merging keeps target ids unique\<close>

lemma grows_refl: "grows d d"
  by (simp add: grows_def)

lemma grows_trans: "grows d1 d2 \<Longrightarrow> grows d2 d3 \<Longrightarrow> grows d1 d3"
  by (simp add: grows_def)

lemma for_each_inv:
  "for_each f xs s = (None, s') \<Longrightarrow> P s \<Longrightarrow>
   (\<And>x s s'. x \<in> set xs \<Longrightarrow> f x s = (None, s') \<Longrightarrow> P s \<Longrightarrow> P s') \<Longrightarrow> P s'"
proof (induction xs arbitrary: s)
  case Nil
  then show ?case by simp
next
  case (Cons x xs)
  obtain r1 s1 where f: "f x s = (r1, s1)" by (cases "f x s")
  with Cons.prems(1) have r1: "r1 = None" and fe: "for_each f xs s1 = (None, s')"
    by (auto split: option.splits)
  from Cons.prems(3)[of x s s1] f r1 Cons.prems(2) have "P s1" by simp
  show ?case
  proof (rule Cons.IH[OF fe \<open>P s1\<close>])
    fix y t t' assume "y \<in> set xs" "f y t = (None, t')" "P t"
    then show "P t'" using Cons.prems(3)[of y t t'] by simp
  qed
qed

lemma declared_by_lookup:
  "fmlookup D s = Some u \<Longrightarrow> load_by_scheme env None u = Inr k \<Longrightarrow>
   set (declared_by env D s) = set (MapKeys k) - {''_meta''}"
  by (auto simp: declared_by_def)

lemma appendTarget_success:
  assumes "appendTarget None d key k = (None, d')"
  shows "fmlookup (duck_Targets d) key = None \<and> duck_Duckfiles d' = duck_Duckfiles d \<and>
         fmdom' (duck_Targets d') = insert key (fmdom' (duck_Targets d))"
  using assms by (auto simp: appendTarget_def split: if_splits sum.splits)

lemma append_step:
  assumes c: "consistent env (insert (s0, key) X) d"
    and nX: "(s0, key) \<notin> X"
    and decl: "key \<in> set (declared_by env (duck_Duckfiles d) s0)"
    and app: "appendTarget None d key k = (None, d')"
  shows "consistent env X d' \<and> grows d d'"
proof -
  from appendTarget_success[OF app] have
    fresh: "fmlookup (duck_Targets d) key = None" and df: "duck_Duckfiles d' = duck_Duckfiles d"
    and dom: "fmdom' (duck_Targets d') = insert key (fmdom' (duck_Targets d))" by auto
  have m: "merged env d' X = insert (s0, key) (merged env d (insert (s0, key) X))"
    using nX decl by (auto simp: merged_def df)
  from c have inj: "inj_on snd (merged env d (insert (s0, key) X))"
    and img: "snd ` merged env d (insert (s0, key) X) = fmdom' (duck_Targets d)"
    and xok: "\<forall>(s, key) \<in> X. fmlookup (duck_Duckfiles d) s \<noteq> None"
    by (auto simp: consistent_def)
  from fresh have "key \<notin> fmdom' (duck_Targets d)" by (simp add: fmdom'_notI)
  with img have "key \<notin> snd ` merged env d (insert (s0, key) X)" by simp
  with inj have "inj_on snd (merged env d' X)" unfolding m by (auto simp: inj_on_def)
  moreover have "snd ` merged env d' X = fmdom' (duck_Targets d')"
    unfolding m using img dom by simp
  ultimately show ?thesis using xok df by (auto simp: consistent_def grows_def)
qed

text \<open>The loop over the keys of one document, for either value of \<open>recurse\<close>.\<close>

lemma key_loop:
  assumes h: "\<And>Y dk dk'. h dk = (None, dk') \<Longrightarrow> consistent env Y dk \<Longrightarrow>
                consistent env Y dk' \<and> grows dk dk'"
    and load: "load_by_scheme env None u = Inr k"
  shows "for_each (\<lambda>key dk. if key = ''_meta'' then h dk
                      else (case appendTarget None dk key k of
                              (Some err, dk') \<Rightarrow> (Some (W key err), dk')
                            | (None, dk') \<Rightarrow> (None, dk'))) keys dk = (None, d') \<Longrightarrow>
         distinct keys \<Longrightarrow> set keys \<subseteq> set (MapKeys k) \<Longrightarrow>
         fmlookup (duck_Duckfiles dk) s0 = Some u \<Longrightarrow> ({s0} \<times> set keys) \<inter> X = {} \<Longrightarrow>
         consistent env (X \<union> {s0} \<times> (set keys - {''_meta''})) dk \<Longrightarrow>
         consistent env X d' \<and> grows dk d'"
proof (induction keys arbitrary: dk)
  case Nil
  then show ?case by (simp add: grows_refl)
next
  case (Cons key keys)
  let ?f = "\<lambda>key dk. if key = ''_meta'' then h dk
                      else (case appendTarget None dk key k of
                              (Some err, dk') \<Rightarrow> (Some (W key err), dk')
                            | (None, dk') \<Rightarrow> (None, dk'))"
  obtain r1 d1 where f: "?f key dk = (r1, d1)" by (cases "?f key dk")
  with Cons.prems(1) have r1: "r1 = None" and fe: "for_each ?f keys d1 = (None, d')"
    by (auto split: option.splits)
  from Cons.prems(2) have dk: "distinct keys" "key \<notin> set keys" by auto
  from Cons.prems(3) have sub: "set keys \<subseteq> set (MapKeys k)" "key \<in> set (MapKeys k)" by auto
  from Cons.prems(5) have dis: "({s0} \<times> set keys) \<inter> X = {}" "(s0, key) \<notin> X" by auto
  have step: "consistent env (X \<union> {s0} \<times> (set keys - {''_meta''})) d1 \<and> grows dk d1"
  proof (cases "key = ''_meta''")
    case True
    with f r1 have "h dk = (None, d1)" by simp
    moreover from True have "set (key # keys) - {''_meta''} = set keys - {''_meta''}" by auto
    ultimately show ?thesis using h Cons.prems(6) by simp
  next
    case False
    with f r1 have app: "appendTarget None dk key k = (None, d1)"
      by (auto split: prod.splits option.splits)
    from False dk(2) have "X \<union> {s0} \<times> (set (key # keys) - {''_meta''}) =
        insert (s0, key) (X \<union> {s0} \<times> (set keys - {''_meta''}))" by auto
    with Cons.prems(6) have c: "consistent env (insert (s0, key) (X \<union> {s0} \<times> (set keys - {''_meta''}))) dk"
      by simp
    from dis(2) dk(2) have n: "(s0, key) \<notin> X \<union> {s0} \<times> (set keys - {''_meta''})" by auto
    from declared_by_lookup[OF Cons.prems(4) load] sub(2) False
    have "key \<in> set (declared_by env (duck_Duckfiles dk) s0)" by simp
    from append_step[OF c n this app] show ?thesis .
  qed
  then have g1: "grows dk d1" by simp
  with Cons.prems(4) have l1: "fmlookup (duck_Duckfiles d1) s0 = Some u" by (simp add: grows_def)
  from Cons.IH[OF fe dk(1) sub(1) l1 dis(1)] step have "consistent env X d' \<and> grows d1 d'" by simp
  with g1 show ?case by (auto intro: grows_trans)
qed

lemma register_step:
  assumes c: "consistent env X d"
    and new: "fmlookup (duck_Duckfiles d) s0 = None"
    and load: "load_by_scheme env None u = Inr k"
  shows "consistent env (X \<union> {s0} \<times> (set (MapKeys k) - {''_meta''}))
           (d\<lparr>duck_Duckfiles := fmupd s0 u (duck_Duckfiles d)\<rparr>) \<and>
         ({s0} \<times> set (MapKeys k)) \<inter> X = {} \<and>
         grows d (d\<lparr>duck_Duckfiles := fmupd s0 u (duck_Duckfiles d)\<rparr>)"
proof -
  let ?d1 = "d\<lparr>duck_Duckfiles := fmupd s0 u (duck_Duckfiles d)\<rparr>"
  let ?X1 = "X \<union> {s0} \<times> (set (MapKeys k) - {''_meta''})"
  from c have xok: "\<forall>(s, key) \<in> X. fmlookup (duck_Duckfiles d) s \<noteq> None"
    by (simp add: consistent_def)
  with new have dis: "({s0} \<times> set (MapKeys k)) \<inter> X = {}" by auto
  have d0: "declared_by env (duck_Duckfiles d) s0 = []" using new by (simp add: declared_by_def)
  have d1: "set (declared_by env (duck_Duckfiles ?d1) s0) = set (MapKeys k) - {''_meta''}"
    using load by (auto simp: declared_by_def)
  have d2: "declared_by env (duck_Duckfiles ?d1) s = declared_by env (duck_Duckfiles d) s"
    if "s \<noteq> s0" for s using that by (simp add: declared_by_def)
  have m: "merged env ?d1 ?X1 = merged env d X"
  proof (rule set_eqI, clarify)
    fix s key
    show "((s, key) \<in> merged env ?d1 ?X1) = ((s, key) \<in> merged env d X)"
    proof (cases "s = s0")
      case True
      with d0 d1 show ?thesis by (auto simp: merged_def)
    next
      case False
      with d2[OF False] show ?thesis by (auto simp: merged_def)
    qed
  qed
  have "\<forall>(s, key) \<in> ?X1. fmlookup (duck_Duckfiles ?d1) s \<noteq> None"
    using xok by auto
  with c m have "consistent env ?X1 ?d1" by (simp add: consistent_def)
  moreover have "grows d ?d1" using new by (auto simp: grows_def)
  ultimately show ?thesis using dis by simp
qed

lemma LoadDuckfile_False_consistent:
  assumes dk: "distinct_keys env"
    and run: "LoadDuckfile env None d u False = (None, d')"
    and c: "consistent env X d"
  shows "consistent env X d' \<and> grows d d'"
proof (cases "fmlookup (duck_Duckfiles d) (url_String env u) \<noteq> None")
  case True
  with run c show ?thesis by (simp add: LoadDuckfile_False_unfold grows_refl)
next
  case False
  then have new: "fmlookup (duck_Duckfiles d) (url_String env u) = None" by simp
  show ?thesis
  proof (cases "load_by_scheme env None u")
    case (Inl err)
    with False run show ?thesis by (simp add: LoadDuckfile_False_unfold)
  next
    case (Inr k)
    let ?d1 = "d\<lparr>duck_Duckfiles := fmupd (url_String env u) u (duck_Duckfiles d)\<rparr>"
    let ?h = "\<lambda>dk :: 'a duck. (None :: error option, dk)"
    let ?W = "\<lambda>key err. Wrap (''failed to append target '' @ key) err"
    from Inr False run
    have fe: "for_each (\<lambda>key dk. if key = ''_meta'' then ?h dk
                      else (case appendTarget None dk key k of
                              (Some err, dk') \<Rightarrow> (Some (?W key err), dk')
                            | (None, dk') \<Rightarrow> (None, dk'))) (MapKeys k) ?d1 = (None, d')"
      by (simp add: LoadDuckfile_False_unfold)
    from dk Inr have dist: "distinct (MapKeys k)" by (auto simp: distinct_keys_def)
    from register_step[OF c new Inr] have
      c1: "consistent env (X \<union> {url_String env u} \<times> (set (MapKeys k) - {''_meta''})) ?d1" and
      dis: "({url_String env u} \<times> set (MapKeys k)) \<inter> X = {}" and g1: "grows d ?d1"
      by blast+
    have l1: "fmlookup (duck_Duckfiles ?d1) (url_String env u) = Some u" by simp
    have "consistent env X d' \<and> grows ?d1 d'"
      by (rule key_loop[where h = ?h and W = ?W, OF _ Inr fe dist subset_refl l1 dis c1])
         (simp add: grows_refl)
    with g1 show ?thesis by (auto intro: grows_trans)
  qed
qed

lemma dependencies_consistent:
  assumes dk: "distinct_keys env"
    and run: "for_each
               (\<lambda>dep dd.
                  case GetDuckfiles env None dep of
                    Inl err \<Rightarrow> (Some (Wrap (m dep) err), dd)
                  | Inr depURLs \<Rightarrow>
                      for_each
                        (\<lambda>depURL dl.
                           case LoadDuckfile env None dl depURL False of
                             (Some err, dl') \<Rightarrow> (Some (Wrap (m' depURL) err), dl')
                           | (None, dl') \<Rightarrow> (None, dl'))
                        depURLs dd)
               deps d = (None, d')"
    and c: "consistent env X d"
  shows "consistent env X d' \<and> grows d d'"
proof -
  let ?P = "\<lambda>t. consistent env X t \<and> grows d t"
  let ?l = "\<lambda>depURL dl.
                           case LoadDuckfile env None dl depURL False of
                             (Some err, dl') \<Rightarrow> (Some (Wrap (m' depURL) err), dl')
                           | (None, dl') \<Rightarrow> (None, dl')"
  have inner: "?P t'" if "?l x t = (None, t')" "?P t" for x t t'
  proof -
    from that(1) have "LoadDuckfile env None t x False = (None, t')"
      by (cases "LoadDuckfile env None t x False") (auto split: option.splits)
    from LoadDuckfile_False_consistent[OF dk this] that(2) show ?thesis
      by (auto intro: grows_trans)
  qed
  have "?P d'"
  proof (rule for_each_inv[where P = ?P, OF run])
    show "?P d" using c by (simp add: grows_refl)
  next
    fix x t t'
    assume step: "(case GetDuckfiles env None x of
                    Inl err \<Rightarrow> (Some (Wrap (m x) err), t)
                  | Inr depURLs \<Rightarrow> for_each ?l depURLs t) = (None, t')" and P: "?P t"
    then obtain us where "for_each ?l us t = (None, t')"
      by (cases "GetDuckfiles env None x") auto
    then show "?P t'"
      by (rule for_each_inv[where P = ?P]) (use P inner in blast)+
  qed
  then show ?thesis .
qed

lemma LoadDuckfile_True_consistent:
  assumes dk: "distinct_keys env"
    and run: "LoadDuckfile env None d u True = (None, d')"
    and c: "consistent env X d"
  shows "consistent env X d' \<and> grows d d'"
proof (cases "fmlookup (duck_Duckfiles d) (url_String env u) \<noteq> None")
  case True
  with run c show ?thesis by (simp add: LoadDuckfile_True_unfold grows_refl)
next
  case False
  then have new: "fmlookup (duck_Duckfiles d) (url_String env u) = None" by simp
  show ?thesis
  proof (cases "load_by_scheme env None u")
    case (Inl err)
    with False run show ?thesis by (simp add: LoadDuckfile_True_unfold)
  next
    case (Inr k)
    let ?d1 = "d\<lparr>duck_Duckfiles := fmupd (url_String env u) u (duck_Duckfiles d)\<rparr>"
    let ?g = "\<lambda>dep dd.
                  case GetDuckfiles env None dep of
                    Inl err \<Rightarrow>
                      (Some (Wrap (''failed to extract duckfile urls for dependency '' @ dep) err), dd)
                  | Inr depURLs \<Rightarrow>
                      for_each
                        (\<lambda>depURL dl.
                           case LoadDuckfile env None dl depURL False of
                             (Some err, dl') \<Rightarrow>
                               (Some (Wrap (''failed to load dependency duckfile ''
                                            @ url_String env depURL) err), dl')
                           | (None, dl') \<Rightarrow> (None, dl'))
                        depURLs dd"
    let ?h = "\<lambda>dk. if length (meta_dependencies k) > 0
                    then for_each ?g (meta_dependencies k) dk else (None, dk)"
    let ?W = "\<lambda>key err. Wrap (''failed to append target '' @ key) err"
    from Inr False run
    have fe: "for_each (\<lambda>key dk. if key = ''_meta'' then ?h dk
                      else (case appendTarget None dk key k of
                              (Some err, dk') \<Rightarrow> (Some (?W key err), dk')
                            | (None, dk') \<Rightarrow> (None, dk'))) (MapKeys k) ?d1 = (None, d')"
      by (simp add: LoadDuckfile_True_unfold)
    have hprop: "consistent env Y t' \<and> grows t t'"
      if "?h t = (None, t')" "consistent env Y t" for Y t t'
    proof (cases "length (meta_dependencies k) > 0")
      case True
      with that(1) have "for_each ?g (meta_dependencies k) t = (None, t')" by simp
      from dependencies_consistent[OF dk this that(2)] show ?thesis .
    next
      case False
      with that show ?thesis by (simp add: grows_refl)
    qed
    from dk Inr have dist: "distinct (MapKeys k)" by (auto simp: distinct_keys_def)
    from register_step[OF c new Inr] have
      c1: "consistent env (X \<union> {url_String env u} \<times> (set (MapKeys k) - {''_meta''})) ?d1" and
      dis: "({url_String env u} \<times> set (MapKeys k)) \<inter> X = {}" and g1: "grows d ?d1"
      by blast+
    have l1: "fmlookup (duck_Duckfiles ?d1) (url_String env u) = Some u" by simp
    have "consistent env X d' \<and> grows ?d1 d'"
      by (rule key_loop[where h = ?h and W = ?W, OF _ Inr fe dist subset_refl l1 dis c1])
         (rule hprop)
    with g1 show ?thesis by (auto intro: grows_trans)
  qed
qed

lemma CompileTargets_consistent:
  assumes dk: "distinct_keys env"
    and run: "CompileTargets env cerr d = (None, d')"
    and c: "consistent env X d"
  shows "consistent env X d'"
proof -
  from run have cerr: "cerr = None" by (cases cerr) (auto simp: CompileTargets_def)
  with run have fe: "for_each (compile_file env None) (cfg_Files (duck_Config d)) d = (None, d')"
    by (simp add: CompileTargets_def)
  have per_file: "consistent env X t'" if "compile_file env None f t = (None, t')" "consistent env X t"
    for f t t'
  proof -
    from that(1) obtain us where
      "for_each (\<lambda>duckfile d2. LoadDuckfile env None d2 duckfile True) us t = (None, t')"
      by (cases "GetDuckfiles env None f") (auto simp: compile_file_def)
    then show ?thesis
    proof (rule for_each_inv[where P = "consistent env X"])
      show "consistent env X t" by (rule that(2))
    next
      fix x s s' assume "LoadDuckfile env None s x True = (None, s')" "consistent env X s"
      with LoadDuckfile_True_consistent[OF dk] show "consistent env X s'" by blast
    qed
  qed
  show ?thesis
    by (rule for_each_inv[where P = "consistent env X", OF fe c]) (rule per_file)
qed

section \<open>The example documents, compiled\<close>

lemmas resolver_eval =
  CompileTargets_def compile_file_def GetDuckfiles_def handleHTTPURL_def handleCloudURL_def
  handleFileURL_def LoadDuckfile_True_unfold LoadDuckfile_False_unfold load_by_scheme_def
  loadHTTPURL_def loadCloudURL_def loadFileURL_def appendTarget_def cloud_bucketURL_def
  strings_TrimPrefix_def strings_HasSuffix_def
  toy_url_def toy_doc_def toy_env_def toy_duck_def empty_bucket_def plain_target_def

lemma toy_compile:
  "CompileTargets toy_env None (toy_duck [''http://a'']) = (None, toy_compiled)"
  by (simp add: resolver_eval toy_compiled_def)

lemma toy_compile_dup:
  "CompileTargets toy_env None (toy_duck [''http://a'', ''http://dup'']) =
     (Some (Wrap ''failed to append target lib'' (Err ''target lib already exists'')), toy_failed)"
  by (simp add: resolver_eval toy_failed_def)


lemma toy_distinct_keys: "distinct_keys toy_env"
  by (auto simp: distinct_keys_def load_by_scheme_def loadHTTPURL_def loadCloudURL_def
      loadFileURL_def toy_env_def toy_doc_def empty_bucket_def split: if_splits sum.splits)

section \<open>Duplicate target ids\<close>

text \<open>
  C6. \<^verbatim>\<open>appendTarget\<close> refuses a name that is already in the table: it returns the
  error and leaves the table as it is. So when a pass of \<^verbatim>\<open>CompileTargets\<close> from an
  empty instance succeeds, no target id is declared by two of the documents it loaded
  (documents have distinct top-level keys), and the table holds exactly the declared
  ids. And when \<^verbatim>\<open>CompileTargets\<close> fails, \<^verbatim>\<open>Duck.Run\<close> returns that error with nothing
  executed: the log is empty and the world untouched.
\<close>

theorem duplicate_target_is_fatal:
  "(fmlookup (duck_Targets d) name \<noteq> None \<longrightarrow>
      appendTarget None d name k = (Some (Err (''target '' @ name @ '' already exists'')), d)) \<and>
   (distinct_keys env \<and> duck_Duckfiles d0 = fmempty \<and> duck_Targets d0 = fmempty \<and>
    CompileTargets env cerr d0 = (None, d1) \<longrightarrow>
      (\<forall>s1 s2 key. key \<in> set (declared_by env (duck_Duckfiles d1) s1) \<and>
                    key \<in> set (declared_by env (duck_Duckfiles d1) s2) \<longrightarrow> s1 = s2) \<and>
      fmdom' (duck_Targets d1) = (\<Union>s. set (declared_by env (duck_Duckfiles d1) s))) \<and>
   (ctx w = None \<and> CompileTargets env None d2 = (Some err, d3) \<longrightarrow>
      Duck_Run n env ctx d2 w = Some (Failed err, d3, w, []))"
proof (intro conjI impI)
  assume "fmlookup (duck_Targets d) name \<noteq> None"
  then show "appendTarget None d name k =
      (Some (Err (''target '' @ name @ '' already exists'')), d)"
    by (simp add: appendTarget_def)
next
  assume a: "distinct_keys env \<and> duck_Duckfiles d0 = fmempty \<and> duck_Targets d0 = fmempty \<and>
    CompileTargets env cerr d0 = (None, d1)"
  then have "consistent env {} d0"
    by (simp add: consistent_def merged_def declared_by_def)
  with a CompileTargets_consistent[of env cerr d0 d1 "{}"] have c: "consistent env {} d1" by blast
  then have inj: "inj_on snd (merged env d1 {})"
    and img: "snd ` merged env d1 {} = fmdom' (duck_Targets d1)"
    by (auto simp: consistent_def)
  show "\<forall>s1 s2 key. key \<in> set (declared_by env (duck_Duckfiles d1) s1) \<and>
                    key \<in> set (declared_by env (duck_Duckfiles d1) s2) \<longrightarrow> s1 = s2"
  proof (intro allI impI)
    fix s1 s2 key
    assume "key \<in> set (declared_by env (duck_Duckfiles d1) s1) \<and>
            key \<in> set (declared_by env (duck_Duckfiles d1) s2)"
    then have "(s1, key) \<in> merged env d1 {}" "(s2, key) \<in> merged env d1 {}"
      by (auto simp: merged_def)
    from inj_onD[OF inj _ this] show "s1 = s2" by simp
  qed
  from img show "fmdom' (duck_Targets d1) = (\<Union>s. set (declared_by env (duck_Duckfiles d1) s))"
    by (force simp: merged_def)
next
  assume "ctx w = None \<and> CompileTargets env None d2 = (Some err, d3)"
  then show "Duck_Run n env ctx d2 w = Some (Failed err, d3, w, [])"
    by (simp add: Duck_Run_def)
qed

text \<open>
  C6 at the toy documents: with \<open>a\<close> alone the pass succeeds; with \<open>dup\<close> added, which
  declares \<open>lib\<close> as \<open>b\<close> does, the pass and \<^verbatim>\<open>Duck.Run\<close> fail.
\<close>

theorem duplicate_target_is_fatal_witness:
  "appendTarget None toy_compiled ''lib'' dup_doc =
     (Some (Err ''target lib already exists''), toy_compiled) \<and>
   CompileTargets toy_env None (toy_duck [''http://a'']) = (None, toy_compiled) \<and>
   fmdom' (duck_Targets toy_compiled) =
     (\<Union>s. set (declared_by toy_env (duck_Duckfiles toy_compiled) s)) \<and>
   CompileTargets toy_env None (toy_duck [''http://a'', ''http://dup'']) =
     (Some (Wrap ''failed to append target lib'' (Err ''target lib already exists'')), toy_failed) \<and>
   Duck_Run 3 toy_env no_cancel (toy_duck [''http://a'', ''http://dup'']) () =
     Some (Failed (Wrap ''failed to append target lib'' (Err ''target lib already exists'')),
           toy_failed, (), [])"
proof -
  have h1: "fmlookup (duck_Targets toy_compiled) ''lib'' \<noteq> None"
    by (simp add: toy_compiled_def)
  have h2: "duck_Duckfiles (toy_duck [''http://a'']) = fmempty"
    "duck_Targets (toy_duck [''http://a'']) = fmempty"
    by (simp_all add: toy_duck_def)
  have h3: "no_cancel () = None" by (simp add: no_cancel_def)
  note inst = duplicate_target_is_fatal[of toy_compiled "''lib''" dup_doc toy_env
      "toy_duck [''http://a'']" None toy_compiled no_cancel "()"
      "toy_duck [''http://a'', ''http://dup'']"
      "Wrap ''failed to append target lib'' (Err ''target lib already exists'')" toy_failed 3]
  from inst h1 h2 h3 toy_distinct_keys toy_compile toy_compile_dup show ?thesis
    by simp
qed

section \<open>The lineage set\<close>




section \<open>Expansion at the example documents\<close>


text \<open>C10 at an object of the empty bucket.\<close>

theorem missing_object_is_skipped_witness:
  "handleCloudURL toy_env None (toy_url ''s3://bucket/missing.duck'') ''s3://bucket/missing.duck''
     = Inr [] \<and>
   GetDuckfiles toy_env None ''s3://bucket/missing.duck'' = Inr [] \<and>
   compile_file toy_env None ''s3://bucket/missing.duck'' (toy_duck []) = (None, toy_duck []) \<and>
   for_each (compile_file toy_env None) [''s3://bucket/missing.duck'', ''http://a''] (toy_duck []) =
     for_each (compile_file toy_env None) [''http://a''] (toy_duck [])"
proof -
  have u: "toy_url ''s3://bucket/missing.duck'' =
      \<lparr>Scheme = ''s3'', Host = ''bucket'', Path = ''/missing.duck'', RawQuery = []\<rparr>"
    by code_simp
  have h: "strings_Contains ''s3://bucket/missing.duck'' ''://''"
    "url_Parse toy_env ''s3://bucket/missing.duck'' = Inr (toy_url ''s3://bucket/missing.duck'')"
    "Scheme (toy_url ''s3://bucket/missing.duck'') = ''s3'' \<or>
     Scheme (toy_url ''s3://bucket/missing.duck'') = ''gs'' \<or>
     Scheme (toy_url ''s3://bucket/missing.duck'') = ''azblob''"
    "blob_OpenBucket toy_env (cloud_bucketURL (toy_url ''s3://bucket/missing.duck'')) = Inr empty_bucket"
    "Path (toy_url ''s3://bucket/missing.duck'') \<noteq> []"
    "last (Path (toy_url ''s3://bucket/missing.duck'')) \<noteq> CHR ''/''"
    "bucket_Exists empty_bucket (strings_TrimPrefix (Path (toy_url ''s3://bucket/missing.duck'')) ''/'')
       = Inr False"
    by (simp_all add: toy_env_def empty_bucket_def cloud_bucketURL_def strings_TrimPrefix_def u)
  from missing_object_is_skipped[OF h, of "toy_duck []" "[''http://a'']"] show ?thesis .
qed

section \<open>Compiled tables store every target under its id\<close>

lemma ids_ok_refl: "ids_ok d d"
  by (simp add: ids_ok_def)

lemma ids_ok_trans: "ids_ok d1 d2 \<Longrightarrow> ids_ok d2 d3 \<Longrightarrow> ids_ok d1 d3"
  by (simp add: ids_ok_def)

lemma appendTarget_ids:
  assumes "appendTarget cerr d name k = (r, d')"
  shows "ids_ok d d'"
proof -
  from assms have "d' = d \<or>
      (\<exists>t. d' = d\<lparr>duck_Targets := fmupd name (t\<lparr>TargetId := name\<rparr>) (duck_Targets d)\<rparr>)"
    by (auto simp: appendTarget_def split: option.splits if_splits sum.splits)
  then show ?thesis
    by (auto simp: ids_ok_def stored_by_id_def split: if_splits)
qed

lemma key_step_ids:
  assumes h: "\<And>dk r dk'. h dk = (r, dk') \<Longrightarrow> ids_ok dk dk'"
    and step: "(if key = ''_meta'' then h dk
               else (case appendTarget cerr dk key k of
                       (Some err, dk') \<Rightarrow> (Some (W key err), dk')
                     | (None, dk') \<Rightarrow> (None, dk'))) = (r, dk')"
  shows "ids_ok dk dk'"
proof (cases "key = ''_meta''")
  case True
  with step h show ?thesis by simp
next
  case False
  with step obtain q where "appendTarget cerr dk key k = (q, dk')"
    by (cases "appendTarget cerr dk key k") (auto split: option.splits)
  then show ?thesis by (rule appendTarget_ids)
qed

lemma LoadDuckfile_False_ids:
  assumes "LoadDuckfile env cerr d u False = (r, d')"
  shows "ids_ok d d'"
proof (cases cerr)
  case (Some err)
  with assms show ?thesis by (simp add: LoadDuckfile_cancelled ids_ok_refl)
next
  case None
  show ?thesis
  proof (cases "fmlookup (duck_Duckfiles d) (url_String env u) \<noteq> None")
    case True
    with None assms show ?thesis by (simp add: LoadDuckfile_False_unfold ids_ok_refl)
  next
    case False
    let ?d1 = "d\<lparr>duck_Duckfiles := fmupd (url_String env u) u (duck_Duckfiles d)\<rparr>"
    have d1: "ids_ok d ?d1" by (simp add: ids_ok_def stored_by_id_def)
    show ?thesis
    proof (cases "load_by_scheme env None u")
      case (Inl err)
      with False None assms d1 show ?thesis by (simp add: LoadDuckfile_False_unfold)
    next
      case (Inr k)
      let ?f = "\<lambda>key dk. if key = ''_meta'' then (None, dk)
                  else (case appendTarget None dk key k of
                          (Some err, dk') \<Rightarrow> (Some (Wrap (''failed to append target '' @ key) err), dk')
                        | (None, dk') \<Rightarrow> (None, dk'))"
      from Inr False None assms have fe: "for_each ?f (MapKeys k) ?d1 = (r, d')"
        by (simp add: LoadDuckfile_False_unfold)
      have "ids_ok ?d1 d'"
      proof (rule for_each_rel[where R = ids_ok and f = ?f, OF ids_ok_refl ids_ok_trans fe])
        fix x s q s' assume "?f x s = (q, s')"
        then show "ids_ok s s'"
          by (rule key_step_ids[where h = "\<lambda>dk. (None, dk)"
                and W = "\<lambda>key err. Wrap (''failed to append target '' @ key) err", rotated])
             (simp add: ids_ok_refl)
      qed
      with d1 show ?thesis by (rule ids_ok_trans)
    qed
  qed
qed

lemma LoadDuckfile_True_ids:
  assumes "LoadDuckfile env cerr d u True = (r, d')"
  shows "ids_ok d d'"
proof (cases cerr)
  case (Some err)
  with assms show ?thesis by (simp add: LoadDuckfile_cancelled ids_ok_refl)
next
  case None
  show ?thesis
  proof (cases "fmlookup (duck_Duckfiles d) (url_String env u) \<noteq> None")
    case True
    with None assms show ?thesis by (simp add: LoadDuckfile_True_unfold ids_ok_refl)
  next
    case False
    let ?d1 = "d\<lparr>duck_Duckfiles := fmupd (url_String env u) u (duck_Duckfiles d)\<rparr>"
    have d1: "ids_ok d ?d1" by (simp add: ids_ok_def stored_by_id_def)
    show ?thesis
    proof (cases "load_by_scheme env None u")
      case (Inl err)
      with False None assms d1 show ?thesis by (simp add: LoadDuckfile_True_unfold)
    next
      case (Inr k)
      let ?l = "\<lambda>depURL dl.
                  case LoadDuckfile env None dl depURL False of
                    (Some err, dl') \<Rightarrow>
                      (Some (Wrap (''failed to load dependency duckfile '' @ url_String env depURL) err), dl')
                  | (None, dl') \<Rightarrow> (None, dl')"
      let ?g = "\<lambda>dep dd.
                  case GetDuckfiles env None dep of
                    Inl err \<Rightarrow>
                      (Some (Wrap (''failed to extract duckfile urls for dependency '' @ dep) err), dd)
                  | Inr depURLs \<Rightarrow> for_each ?l depURLs dd"
      let ?h = "\<lambda>dk. if length (meta_dependencies k) > 0
                    then for_each ?g (meta_dependencies k) dk else (None, dk)"
      let ?f = "\<lambda>key dk. if key = ''_meta'' then ?h dk
                  else (case appendTarget None dk key k of
                          (Some err, dk') \<Rightarrow> (Some (Wrap (''failed to append target '' @ key) err), dk')
                        | (None, dk') \<Rightarrow> (None, dk'))"
      from Inr False None assms have fe: "for_each ?f (MapKeys k) ?d1 = (r, d')"
        by (simp add: LoadDuckfile_True_unfold)
      have l: "ids_ok s s'" if "?l x s = (q, s')" for x s q s'
      proof -
        from that obtain q0 where "LoadDuckfile env None s x False = (q0, s')"
          by (cases "LoadDuckfile env None s x False") (auto split: option.splits)
        then show ?thesis by (rule LoadDuckfile_False_ids)
      qed
      have g: "ids_ok s s'" if "?g x s = (q, s')" for x s q s'
      proof (cases "GetDuckfiles env None x")
        case (Inl err)
        with that show ?thesis by (simp add: ids_ok_refl)
      next
        case (Inr us)
        with that have fl: "for_each ?l us s = (q, s')" by simp
        show ?thesis
        proof (rule for_each_rel[where R = ids_ok and f = ?l, OF ids_ok_refl ids_ok_trans fl])
          fix y t q' t' assume "?l y t = (q', t')"
          then show "ids_ok t t'" by (rule l)
        qed
      qed
      have h: "ids_ok s s'" if "?h s = (q, s')" for s q s'
      proof (cases "length (meta_dependencies k) > 0")
        case True
        with that have fg: "for_each ?g (meta_dependencies k) s = (q, s')" by simp
        show ?thesis
        proof (rule for_each_rel[where R = ids_ok and f = ?g, OF ids_ok_refl ids_ok_trans fg])
          fix y t q' t' assume "?g y t = (q', t')"
          then show "ids_ok t t'" by (rule g)
        qed
      next
        case False
        with that show ?thesis by (simp add: ids_ok_refl)
      qed
      have "ids_ok ?d1 d'"
      proof (rule for_each_rel[where R = ids_ok and f = ?f, OF ids_ok_refl ids_ok_trans fe])
        fix x s q s' assume "?f x s = (q, s')"
        then show "ids_ok s s'"
          by (rule key_step_ids[where h = ?h
                and W = "\<lambda>key err. Wrap (''failed to append target '' @ key) err", rotated])
             (rule h)
      qed
      with d1 show ?thesis by (rule ids_ok_trans)
    qed
  qed
qed

lemma CompileTargets_ids:
  assumes "CompileTargets env cerr d = (r, d')"
    and "\<forall>k t. fmlookup (duck_Targets d) k = Some t \<longrightarrow> TargetId t = k"
  shows "\<forall>k t. fmlookup (duck_Targets d') k = Some t \<longrightarrow> TargetId t = k"
proof -
  have per_file: "ids_ok s s'" if "compile_file env cerr f s = (q, s')" for f s q s'
  proof (cases "GetDuckfiles env cerr f")
    case (Inl err)
    with that show ?thesis by (simp add: compile_file_def ids_ok_refl)
  next
    case (Inr us)
    with that have fl: "for_each (\<lambda>duckfile d2. LoadDuckfile env cerr d2 duckfile True) us s = (q, s')"
      by (simp add: compile_file_def)
    show ?thesis
    proof (rule for_each_rel[where R = ids_ok and
          f = "\<lambda>duckfile d2. LoadDuckfile env cerr d2 duckfile True",
          OF ids_ok_refl ids_ok_trans fl])
      fix y t q' t' assume "LoadDuckfile env cerr t y True = (q', t')"
      then show "ids_ok t t'" by (rule LoadDuckfile_True_ids)
    qed
  qed
  have "ids_ok d d'"
  proof (cases cerr)
    case (Some err)
    with assms(1) show ?thesis by (simp add: CompileTargets_def ids_ok_refl)
  next
    case None
    with assms(1) have fc: "for_each (compile_file env cerr) (cfg_Files (duck_Config d)) d = (r, d')"
      by (simp add: CompileTargets_def)
    show ?thesis
    proof (rule for_each_rel[where R = ids_ok and f = "compile_file env cerr",
          OF ids_ok_refl ids_ok_trans fc])
      fix y t q' t' assume "compile_file env cerr y t = (q', t')"
      then show "ids_ok t t'" by (rule per_file)
    qed
  qed
  with assms(2) show ?thesis by (simp add: ids_ok_def stored_by_id_def)
qed

end
